theory Spec2Isabelle
  imports Complex_Main
begin

section \<open>Conventions of the embedding\<close>

text \<open>
  The calculators of \<^verbatim>\<open>backend/trucking/services.py\<close> are embedded as HOL functions.
  Python \<^verbatim>\<open>int\<close> is \<^typ>\<open>int\<close>.  A dictionary with a fixed set of keys is a record,
  a string-valued enumeration is a datatype, an exception is the left summand of a
  result.

  A Python \<^verbatim>\<open>float\<close> is an IEEE double.  A finite double is modelled by the real
  number it denotes, and every float operation by the exact operation followed by
  rounding to the nearest double, ties to even (\<open>rd\<close> below, with the gradual
  underflow of the format).  The arguments of the embedded functions stand for
  doubles: \<open>is_double\<close> says which reals are.  Infinities and NaN have no
  counterpart.  The one place where a finite argument makes the code produce an
  infinity, the product in \<^verbatim>\<open>int(driving_hours * 60)\<close>, is modelled by the error that
  \<^verbatim>\<open>int\<close> then raises.  The stop planner keeps the exact quotients in its two floor
  divisions.
\<close>

datatype py_error = ZeroDivisionError | OverflowError

section \<open>Number formatting\<close>

text \<open>Decimal rendering of integers, as \<^verbatim>\<open>str\<close> and the format specs \<^verbatim>\<open>{n}\<close>,
  \<^verbatim>\<open>{n:02d}\<close> and \<^verbatim>\<open>{x:.1f}\<close> produce it.\<close>

definition digit_char :: "nat \<Rightarrow> char" where
  "digit_char n = ''0123456789'' ! n"

fun str_nat :: "nat \<Rightarrow> string" where
  "str_nat n = (if n < 10 then [digit_char n] else str_nat (n div 10) @ [digit_char (n mod 10)])"

declare str_nat.simps [simp del]

definition str_int :: "int \<Rightarrow> string" where
  "str_int i = (if i < 0 then CHR ''-'' # str_nat (nat (- i)) else str_nat (nat i))"

definition fmt_02d :: "int \<Rightarrow> string" where
  "fmt_02d i = (if 0 \<le> i \<and> i < 10 then CHR ''0'' # str_int i else str_int i)"

text \<open>Rounding of an exact value to the nearest integer, ties to even: the rounding of
  \<^verbatim>\<open>{x:.1f}\<close> and of \<^verbatim>\<open>round(x, 2)\<close> on the value a float denotes.\<close>

definition round_half_even :: "real \<Rightarrow> int" where
  "round_half_even r =
     (if r - of_int \<lfloor>r\<rfloor> < 1 / 2 then \<lfloor>r\<rfloor>
      else if 1 / 2 < r - of_int \<lfloor>r\<rfloor> then \<lfloor>r\<rfloor> + 1
      else if even \<lfloor>r\<rfloor> then \<lfloor>r\<rfloor> else \<lfloor>r\<rfloor> + 1)"

definition fmt_1f :: "real \<Rightarrow> string" where
  "fmt_1f x =
     (if x < 0 then ''-'' else '''') @
     str_int (round_half_even (\<bar>x\<bar> * 10) div 10) @ ''.'' @
     str_int (round_half_even (\<bar>x\<bar> * 10) mod 10)"

section \<open>Floating point\<close>

text \<open>The exponent of the binade a real lies in, not below that of the smallest normal
  double; the spacing of the doubles there; and rounding to the nearest double.  The
  exponent is not bounded above: a rounded value of magnitude \<open>2 ^ 1024\<close> or more
  stands for an infinity.\<close>

definition binade :: "real \<Rightarrow> int" where
  "binade x = (if x = 0 then - 1022 else max \<lfloor>log 2 \<bar>x\<bar>\<rfloor> (- 1022))"

definition quantum :: "real \<Rightarrow> real" where
  "quantum x = 2 powi (binade x - 52)"

definition rd :: "real \<Rightarrow> real" where
  "rd x = of_int (round_half_even (x / quantum x)) * quantum x"

definition is_double :: "real \<Rightarrow> bool" where
  "is_double x \<longleftrightarrow>
     (\<exists>m e. x = of_int m * 2 powi e \<and> \<bar>m\<bar> < 2 ^ 53 \<and> - 1074 \<le> e \<and> e \<le> 971)"

text \<open>The float operations.  \<open>x + 0.0\<close> is \<open>x\<close> itself in IEEE arithmetic; this
  is written out so that it holds of every real argument.  An \<^verbatim>\<open>int\<close> operand is
  converted to a float first (\<open>float_of_int\<close>), except in the true division of two
  \<^verbatim>\<open>int\<close>s, which rounds the exact quotient once.\<close>

definition fadd :: "real \<Rightarrow> real \<Rightarrow> real" where
  "fadd x y = (if y = 0 then x else rd (x + y))"

definition fsub :: "real \<Rightarrow> real \<Rightarrow> real" where
  "fsub x y = rd (x - y)"

definition fmul :: "real \<Rightarrow> real \<Rightarrow> real" where
  "fmul x y = rd (x * y)"

definition fdiv :: "real \<Rightarrow> real \<Rightarrow> real" where
  "fdiv x y = rd (x / y)"

definition float_of_int :: "int \<Rightarrow> real" where
  "float_of_int n = rd (of_int n)"

definition int_true_div :: "int \<Rightarrow> int \<Rightarrow> real" where
  "int_true_div a b = rd (of_int a / of_int b)"

text \<open>\<^verbatim>\<open>round(x, 2)\<close>: the exact value rounded to two decimals, ties to even, then to
  the nearest double.\<close>

definition round2 :: "real \<Rightarrow> real" where
  "round2 x = rd (of_int (round_half_even (x * 100)) / 100)"

text \<open>\<^verbatim>\<open>int(x)\<close> on a float truncates towards zero.\<close>

definition py_int :: "real \<Rightarrow> int" where
  "py_int x = (if 0 \<le> x then \<lfloor>x\<rfloor> else \<lceil>x\<rceil>)"

section \<open>HOSCalculator\<close>

datatype duty_status = OffDuty | OnDuty | Driving | SleeperBerth

record time_entry =
  hour :: int
  status :: duty_status

text \<open>\<^verbatim>\<open>_format_time\<close>: \<^verbatim>\<open>f"{hours}h {mins:02d}m"\<close> with floor division and modulus.\<close>

definition format_time :: "int \<Rightarrow> string" where
  "format_time minutes =
     str_int (minutes div 60) @ ''h '' @ fmt_02d (minutes mod 60) @ ''m''"

text \<open>The quantities both \<^verbatim>\<open>calculate_hos_status\<close> and \<^verbatim>\<open>calculate_violations\<close>
  compute first, under the names of the local variables that hold them.\<close>

definition driving_minutes :: "time_entry list \<Rightarrow> int" where
  "driving_minutes time_entries =
     int (length (filter (\<lambda>entry. status entry = Driving) time_entries)) * 60"

definition on_duty_minutes :: "time_entry list \<Rightarrow> int" where
  "on_duty_minutes time_entries =
     int (length (filter (\<lambda>entry. status entry \<in> set [Driving, OnDuty]) time_entries)) * 60"

definition cycle_used_hours :: "time_entry list \<Rightarrow> real \<Rightarrow> real" where
  "cycle_used_hours time_entries current_cycle_hours =
     fadd current_cycle_hours (int_true_div (on_duty_minutes time_entries) 60)"

definition drive_time_left_minutes :: "time_entry list \<Rightarrow> int" where
  "drive_time_left_minutes time_entries = max 0 (11 * 60 - driving_minutes time_entries)"

definition on_duty_left_minutes :: "time_entry list \<Rightarrow> int" where
  "on_duty_left_minutes time_entries = max 0 (14 * 60 - on_duty_minutes time_entries)"

text \<open>The scan of \<^verbatim>\<open>calculate_hos_status\<close>: the counter is incremented on a driving
  entry and reset by any other one.\<close>

fun continuous_driving_loop :: "time_entry list \<Rightarrow> int \<Rightarrow> int" where
  "continuous_driving_loop [] continuous_driving = continuous_driving"
| "continuous_driving_loop (entry # rest) continuous_driving =
     continuous_driving_loop rest
       (if status entry = Driving then continuous_driving + 1 else 0)"

definition continuous_driving_final :: "time_entry list \<Rightarrow> int" where
  "continuous_driving_final time_entries = continuous_driving_loop time_entries 0"

definition next_break_minutes :: "time_entry list \<Rightarrow> int" where
  "next_break_minutes time_entries = max 0 (8 * 60 - continuous_driving_final time_entries * 60)"

record hos_status =
  drive_time_left :: string
  on_duty_left :: string
  cycle_used :: string
  next_break :: string
  is_compliant :: bool

definition calculate_hos_status :: "time_entry list \<Rightarrow> real \<Rightarrow> hos_status" where
  "calculate_hos_status time_entries current_cycle_hours =
     \<lparr>drive_time_left = format_time (drive_time_left_minutes time_entries),
      on_duty_left = format_time (on_duty_left_minutes time_entries),
      cycle_used = fmt_1f (cycle_used_hours time_entries current_cycle_hours) @ ''h / 70h'',
      next_break = format_time (next_break_minutes time_entries),
      is_compliant =
        (driving_minutes time_entries \<le> 11 * 60 \<and>
         on_duty_minutes time_entries \<le> 14 * 60 \<and>
         cycle_used_hours time_entries current_cycle_hours \<le> 70 \<and>
         continuous_driving_final time_entries \<le> 8)\<rparr>"

datatype violation_kind = driving_limit | duty_limit | break_required

datatype severity_level = warning | violation

record hos_violation =
  violation_type :: violation_kind
  description :: string
  severity :: severity_level

text \<open>The scan of \<^verbatim>\<open>calculate_violations\<close> carries the pair
  \<^verbatim>\<open>(continuous_driving, max_continuous)\<close>.\<close>

fun max_continuous_loop :: "time_entry list \<Rightarrow> int \<times> int \<Rightarrow> int \<times> int" where
  "max_continuous_loop [] st = st"
| "max_continuous_loop (entry # rest) (continuous_driving, max_continuous) =
     (if status entry = Driving
      then max_continuous_loop rest
             (continuous_driving + 1, max max_continuous (continuous_driving + 1))
      else max_continuous_loop rest (0, max_continuous))"

definition max_continuous_final :: "time_entry list \<Rightarrow> int" where
  "max_continuous_final time_entries = snd (max_continuous_loop time_entries (0, 0))"

definition calculate_violations :: "time_entry list \<Rightarrow> real \<Rightarrow> hos_violation list" where
  "calculate_violations time_entries current_cycle_hours =
     (if driving_minutes time_entries > 11 * 60
      then [\<lparr>violation_type = driving_limit,
             description = ''Exceeded 11-hour driving limit by '' @
               format_time (driving_minutes time_entries - 11 * 60),
             severity = violation\<rparr>]
      else []) @
     (if on_duty_minutes time_entries > 14 * 60
      then [\<lparr>violation_type = duty_limit,
             description = ''Exceeded 14-hour on-duty limit by '' @
               format_time (on_duty_minutes time_entries - 14 * 60),
             severity = violation\<rparr>]
      else []) @
     (if cycle_used_hours time_entries current_cycle_hours > 70
      then [\<lparr>violation_type = duty_limit,
             description = ''Exceeded 70-hour cycle limit by '' @
               fmt_1f (fsub (cycle_used_hours time_entries current_cycle_hours) 70) @
                 '' hours'',
             severity = violation\<rparr>]
      else []) @
     (if max_continuous_final time_entries > 8
      then [\<lparr>violation_type = break_required,
             description = ''Drove '' @ str_int (max_continuous_final time_entries) @
               '' hours without required 30-minute break'',
             severity = violation\<rparr>]
      else [])"

text \<open>Counting the entries of one status, for stating what the calculators return.\<close>

definition count_status :: "duty_status \<Rightarrow> time_entry list \<Rightarrow> int" where
  "count_status s time_entries = int (length (filter (\<lambda>entry. status entry = s) time_entries))"

section \<open>RouteCalculator: the stop planner\<close>

text \<open>\<^verbatim>\<open>range(n)\<close> for an integer \<open>n\<close>, empty when \<open>n \<le> 0\<close>, and float floor
  division \<^verbatim>\<open>x // y\<close>, whose result is a float with an integral value.\<close>

definition py_range :: "int \<Rightarrow> int list" where
  "py_range n = map int [0..<nat n]"

definition py_floordiv :: "real \<Rightarrow> real \<Rightarrow> real" where
  "py_floordiv x y = of_int \<lfloor>x / y\<rfloor>"

datatype stop_kind = pickup | fuel | rest | dropoff

text \<open>A stop dictionary.  The keys \<^verbatim>\<open>id\<close>, \<^verbatim>\<open>type\<close> and \<^verbatim>\<open>description\<close> are the
  fields \<open>stop_id\<close>, \<open>stop_type\<close> and \<open>stop_description\<close>.\<close>

record stop =
  stop_id :: string
  stop_type :: stop_kind
  location :: string
  coordinates :: "real list"
  estimated_time :: string
  stop_description :: string
  duration :: int
  required :: bool

definition pickup_stop :: "string \<Rightarrow> real \<times> real \<Rightarrow> int \<Rightarrow> stop" where
  "pickup_stop pickup_location pickup_coords n =
     \<lparr>stop_id = ''pickup-'' @ str_int n,
      stop_type = pickup,
      location = pickup_location,
      coordinates = [snd pickup_coords, fst pickup_coords],
      estimated_time = ''1 hour'',
      stop_description = ''Load pickup - 1 hour'',
      duration = 60,
      required = True\<rparr>"

definition fuel_stop :: "real \<times> real \<Rightarrow> int \<Rightarrow> int \<Rightarrow> stop" where
  "fuel_stop pickup_coords n i =
     \<lparr>stop_id = ''fuel-'' @ str_int n,
      stop_type = fuel,
      location = ''Fuel Stop '' @ str_int (i + 1),
      coordinates = [snd pickup_coords, fst pickup_coords],
      estimated_time = ''30 minutes'',
      stop_description = ''Required fuel stop'',
      duration = 30,
      required = True\<rparr>"

definition rest_stop :: "real \<times> real \<Rightarrow> int \<Rightarrow> int \<Rightarrow> stop" where
  "rest_stop pickup_coords n i =
     \<lparr>stop_id = ''rest-'' @ str_int n,
      stop_type = rest,
      location = ''Rest Area '' @ str_int (i + 1),
      coordinates = [snd pickup_coords, fst pickup_coords],
      estimated_time = ''10 hours'',
      stop_description = ''Required 10-hour rest break'',
      duration = 600,
      required = True\<rparr>"

definition dropoff_stop :: "string \<Rightarrow> real \<times> real \<Rightarrow> int \<Rightarrow> stop" where
  "dropoff_stop dropoff_location dropoff_coords n =
     \<lparr>stop_id = ''dropoff-'' @ str_int n,
      stop_type = dropoff,
      location = dropoff_location,
      coordinates = [snd dropoff_coords, fst dropoff_coords],
      estimated_time = ''1 hour'',
      stop_description = ''Unload delivery - 1 hour'',
      duration = 60,
      required = True\<rparr>"

text \<open>The two \<^verbatim>\<open>for\<close> loops, on the state \<^verbatim>\<open>(stops, stop_id)\<close>.\<close>

fun fuel_loop :: "real \<times> real \<Rightarrow> int list \<Rightarrow> stop list \<times> int \<Rightarrow> stop list \<times> int" where
  "fuel_loop pickup_coords [] st = st"
| "fuel_loop pickup_coords (i # rest_is) (stops, n) =
     fuel_loop pickup_coords rest_is (stops @ [fuel_stop pickup_coords n i], n + 1)"

fun rest_loop :: "real \<times> real \<Rightarrow> int list \<Rightarrow> stop list \<times> int \<Rightarrow> stop list \<times> int" where
  "rest_loop pickup_coords [] st = st"
| "rest_loop pickup_coords (i # rest_is) (stops, n) =
     rest_loop pickup_coords rest_is (stops @ [rest_stop pickup_coords n i], n + 1)"

definition fuel_stops_needed :: "real \<Rightarrow> int" where
  "fuel_stops_needed total_distance = py_int (py_floordiv total_distance 1000)"

definition rest_stops_needed :: "real \<Rightarrow> int" where
  "rest_stops_needed total_duration = py_int (py_floordiv (total_duration / 60) 11)"

definition generate_stops ::
  "string \<Rightarrow> string \<Rightarrow> string \<Rightarrow> real \<times> real \<Rightarrow> real \<times> real \<Rightarrow> real \<times> real \<Rightarrow>
   real \<Rightarrow> real \<Rightarrow> stop list" where
  "generate_stops current_location pickup_location dropoff_location
     current_coords pickup_coords dropoff_coords total_distance total_duration =
     (let after_pickup = ([pickup_stop pickup_location pickup_coords 1], 2);
          after_fuel =
            fuel_loop pickup_coords (py_range (fuel_stops_needed total_distance)) after_pickup;
          after_rest =
            rest_loop pickup_coords (py_range (rest_stops_needed total_duration)) after_fuel
      in fst after_rest @ [dropoff_stop dropoff_location dropoff_coords (snd after_rest)])"

section \<open>ELDLogGenerator\<close>

text \<open>Of a \<^verbatim>\<open>datetime\<close> only the calendar day and the hour field are modelled; the
  finer fields are carried along unread.  The day is the proleptic Gregorian ordinal
  (\<^verbatim>\<open>toordinal\<close>), from 1 to \<open>max_ordinal\<close> (9999-12-31); the hour is in \<open>[0, 23]\<close>.
  Adding a \<^verbatim>\<open>timedelta\<close> that leaves this range raises \<^verbatim>\<open>OverflowError\<close>.\<close>

record date_time =
  dt_day :: int
  dt_hour :: int

definition max_ordinal :: int where
  "max_ordinal = 3652059"

definition valid_date :: "date_time \<Rightarrow> bool" where
  "valid_date t \<longleftrightarrow>
     1 \<le> dt_day t \<and> dt_day t \<le> max_ordinal \<and> 0 \<le> dt_hour t \<and> dt_hour t \<le> 23"

text \<open>The dictionary \<^verbatim>\<open>generate_log_for_trip\<close> returns; its key \<^verbatim>\<open>is_compliant\<close> is
  the field \<open>log_is_compliant\<close>.  \<^verbatim>\<open>generate_multi_day_logs\<close> extends it by the keys
  \<^verbatim>\<open>date\<close> and \<^verbatim>\<open>daily_miles\<close>.\<close>

record eld_log =
  time_entries :: "time_entry list"
  driving_time :: int
  on_duty_time :: int
  off_duty_time :: int
  sleeper_berth_time :: int
  remarks :: "string list"
  log_is_compliant :: bool

record daily_log = eld_log +
  date :: date_time
  daily_miles :: real

text \<open>The two float sums the hourly loop compares the hour with:
  \<^verbatim>\<open>current_hour + 1 + driving_hours\<close> and that \<^verbatim>\<open>+ 1\<close>.  A comparison of an
  \<^verbatim>\<open>int\<close> with a float is exact.\<close>

definition driving_end :: "int \<Rightarrow> real \<Rightarrow> real" where
  "driving_end current_hour driving_hours =
     fadd (float_of_int (current_hour + 1)) driving_hours"

definition dropoff_end :: "int \<Rightarrow> real \<Rightarrow> real" where
  "dropoff_end current_hour driving_hours =
     fadd (driving_end current_hour driving_hours) (float_of_int 1)"

text \<open>One pass of the hourly loop: the status of the hour and the remark it appends,
  if any.\<close>

definition hour_step :: "int \<Rightarrow> real \<Rightarrow> int \<Rightarrow> duty_status \<times> string list" where
  "hour_step current_hour driving_hours h =
     (if h < current_hour then (OffDuty, [])
      else if h < current_hour + 1
        then (OnDuty,
              if h = current_hour then [fmt_02d h @ '':00 - Begin pickup activities''] else [])
      else if of_int h < driving_end current_hour driving_hours
        then (Driving,
              if h = current_hour + 1 then [fmt_02d h @ '':00 - Begin driving''] else [])
      else if of_int h < dropoff_end current_hour driving_hours
        then (OnDuty,
              if h = py_int (driving_end current_hour driving_hours)
              then [fmt_02d h @ '':00 - Begin dropoff activities''] else [])
      else (OffDuty,
            if h = py_int (dropoff_end current_hour driving_hours)
            then [fmt_02d h @ '':00 - Off duty''] else []))"

fun hours_loop ::
  "int \<Rightarrow> real \<Rightarrow> int list \<Rightarrow> time_entry list \<times> string list \<Rightarrow>
   time_entry list \<times> string list" where
  "hours_loop current_hour driving_hours [] st = st"
| "hours_loop current_hour driving_hours (h # hs) (entries, rems) =
     hours_loop current_hour driving_hours hs
       (entries @ [\<lparr>hour = h, status = fst (hour_step current_hour driving_hours h)\<rparr>],
        rems @ snd (hour_step current_hour driving_hours h))"

text \<open>\<^verbatim>\<open>generate_log_for_trip\<close>.  \<^verbatim>\<open>int(driving_hours * 60)\<close> comes first and raises
  \<^verbatim>\<open>OverflowError\<close> when the float product is infinite, which is when the rounded
  product reaches \<open>2 ^ 1024\<close>; \<open>log_for_trip\<close> is the dictionary built otherwise.\<close>

definition log_for_trip :: "date_time \<Rightarrow> real \<Rightarrow> real \<Rightarrow> eld_log" where
  "log_for_trip start_time distance_miles driving_hours =
     (let current_hour = dt_hour start_time;
          minutes = py_int (fmul driving_hours (float_of_int 60));
          on_duty = minutes + 120;
          off_duty = 24 * 60 - on_duty;
          filled = hours_loop current_hour driving_hours (py_range 24) ([], [])
      in \<lparr>time_entries = fst filled,
          driving_time = minutes,
          on_duty_time = on_duty,
          off_duty_time = off_duty,
          sleeper_berth_time = 0,
          remarks = snd filled,
          log_is_compliant = (driving_hours \<le> 11 \<and> on_duty \<le> 14 * 60)\<rparr>)"

definition generate_log_for_trip :: "date_time \<Rightarrow> real \<Rightarrow> real \<Rightarrow> py_error + eld_log" where
  "generate_log_for_trip start_time distance_miles driving_hours =
     (if 2 ^ 1024 \<le> \<bar>fmul driving_hours (float_of_int 60)\<bar> then Inl OverflowError
      else Inr (log_for_trip start_time distance_miles driving_hours))"

text \<open>The state of the \<^verbatim>\<open>while\<close> loop of \<^verbatim>\<open>generate_multi_day_logs\<close> and one pass
  of its body.  The division by \<^verbatim>\<open>total_driving_hours\<close> raises when that is zero, and
  \<^verbatim>\<open>current_date += timedelta(days=1)\<close> raises on the last day of the calendar.\<close>

record loop_state =
  logs :: "daily_log list"
  current_date :: date_time
  remaining_hours :: real
  remaining_distance :: real
  day_count :: int

definition multi_day_step :: "real \<Rightarrow> real \<Rightarrow> loop_state \<Rightarrow> py_error + loop_state" where
  "multi_day_step total_distance total_driving_hours s =
     (let daily_driving_hours = min 11 (remaining_hours s)
      in if total_driving_hours = 0 then Inl ZeroDivisionError
         else
           let daily_distance =
                 fmul (fdiv daily_driving_hours total_driving_hours) total_distance
           in case generate_log_for_trip (current_date s) daily_distance daily_driving_hours of
                Inl e \<Rightarrow> Inl e
              | Inr log_data \<Rightarrow>
                  if max_ordinal < dt_day (current_date s) + 1 then Inl OverflowError
                  else
                    let left = fsub (remaining_hours s) daily_driving_hours;
                        next_day = (current_date s)\<lparr>dt_day := dt_day (current_date s) + 1\<rparr>
                    in Inr
                         \<lparr>logs = logs s @
                            [eld_log.extend log_data
                               (daily_log.fields (current_date s) (round2 daily_distance))],
                          current_date =
                            (if left > 0
                             then next_day\<lparr>dt_hour := max 0 ((dt_hour next_day + 10) mod 24)\<rparr>
                             else next_day),
                          remaining_hours = left,
                          remaining_distance = fsub (remaining_distance s) daily_distance,
                          day_count = day_count s + 1\<rparr>)"

function multi_day_loop :: "real \<Rightarrow> real \<Rightarrow> loop_state \<Rightarrow> py_error + loop_state" where
  "multi_day_loop total_distance total_driving_hours s =
     (if remaining_hours s > 0
      then case multi_day_step total_distance total_driving_hours s of
             Inl e \<Rightarrow> Inl e
           | Inr s' \<Rightarrow> multi_day_loop total_distance total_driving_hours s'
      else Inr s)"
  by pat_completeness auto
termination
proof (relation "measure (\<lambda>(total_distance, total_driving_hours, s).
    nat (max_ordinal - dt_day (current_date s)))")
  show "wf (measure (\<lambda>(total_distance, total_driving_hours, s).
    nat (max_ordinal - dt_day (current_date s))))"
    by simp
next
  fix total_distance total_driving_hours :: real and s s' :: loop_state
  assume "multi_day_step total_distance total_driving_hours s = Inr s'"
  then have "dt_day (current_date s') = dt_day (current_date s) + 1 \<and>
      dt_day (current_date s') \<le> max_ordinal"
    by (auto simp: multi_day_step_def Let_def split: if_splits sum.splits)
  then show "((total_distance, total_driving_hours, s'), (total_distance, total_driving_hours, s))
     \<in> measure (\<lambda>(total_distance, total_driving_hours, s).
          nat (max_ordinal - dt_day (current_date s)))"
    by simp
qed

declare multi_day_loop.simps [simp del]

definition generate_multi_day_logs ::
  "date_time \<Rightarrow> real \<Rightarrow> real \<Rightarrow> string \<Rightarrow> string \<Rightarrow> py_error + daily_log list" where
  "generate_multi_day_logs start_time total_distance total_driving_hours
     pickup_location dropoff_location =
     (case multi_day_loop total_distance total_driving_hours
             \<lparr>logs = [], current_date = start_time, remaining_hours = total_driving_hours,
              remaining_distance = total_distance, day_count = 1\<rparr> of
        Inl e \<Rightarrow> Inl e
      | Inr s \<Rightarrow> Inr (logs s))"

section \<open>Notions for stating the properties\<close>

subsection \<open>Driving streaks\<close>

text \<open>The trailing streak of a sequence is the number of driving entries at its end;
  a driving run of length \<open>n\<close> is a block of \<open>n\<close> consecutive driving entries
  anywhere in it.  These two notions state what the two scans compute.\<close>

definition is_driving :: "time_entry \<Rightarrow> bool" where
  "is_driving entry = (status entry = Driving)"

definition trailing_streak :: "time_entry list \<Rightarrow> nat" where
  "trailing_streak es = length (takeWhile is_driving (rev es))"

definition has_driving_run :: "time_entry list \<Rightarrow> nat \<Rightarrow> bool" where
  "has_driving_run es n =
     (\<exists>ps ys ss. es = ps @ ys @ ss \<and> length ys = n \<and> list_all is_driving ys)"

subsection \<open>The days of a multi-day trip\<close>

text \<open>What day \<open>k\<close> (counted from 0) of a trip of \<open>total_driving_hours\<close> hours is
  expected to get: the hours driven, as an exact difference; the date the day starts at
  (one calendar day and ten hours after the previous start, the hour taken modulo 24);
  the distance, the float quotient of the day's hours by the total hours times the
  total distance; and the log built from them.  The loop starts from
  \<open>initial_state\<close>.\<close>

definition nth_daily_hours :: "real \<Rightarrow> nat \<Rightarrow> real" where
  "nth_daily_hours total_driving_hours k = min 11 (total_driving_hours - 11 * of_nat k)"

definition nth_date :: "date_time \<Rightarrow> nat \<Rightarrow> date_time" where
  "nth_date start_time k =
     (if k = 0 then start_time
      else \<lparr>dt_day = dt_day start_time + int k,
            dt_hour = (dt_hour start_time + 10 * int k) mod 24\<rparr>)"

definition nth_daily_distance :: "real \<Rightarrow> real \<Rightarrow> nat \<Rightarrow> real" where
  "nth_daily_distance total_distance total_driving_hours k =
     fmul (fdiv (nth_daily_hours total_driving_hours k) total_driving_hours) total_distance"

definition nth_daily_log :: "date_time \<Rightarrow> real \<Rightarrow> real \<Rightarrow> nat \<Rightarrow> daily_log" where
  "nth_daily_log start_time total_distance total_driving_hours k =
     eld_log.extend
       (log_for_trip (nth_date start_time k)
          (nth_daily_distance total_distance total_driving_hours k)
          (nth_daily_hours total_driving_hours k))
       (daily_log.fields (nth_date start_time k)
          (round2 (nth_daily_distance total_distance total_driving_hours k)))"

definition initial_state :: "date_time \<Rightarrow> real \<Rightarrow> real \<Rightarrow> loop_state" where
  "initial_state start_time total_distance total_driving_hours =
     \<lparr>logs = [], current_date = start_time, remaining_hours = total_driving_hours,
      remaining_distance = total_distance, day_count = 1\<rparr>"

subsection \<open>Ranges of the fields of a log\<close>

definition hours_in_range :: "time_entry list \<Rightarrow> bool" where
  "hours_in_range es = list_all (\<lambda>entry. 0 \<le> hour entry \<and> hour entry \<le> 23) es"

definition daily_log_ok :: "daily_log \<Rightarrow> bool" where
  "daily_log_ok l \<longleftrightarrow>
     0 \<le> driving_time l \<and> 0 \<le> on_duty_time l \<and> 0 \<le> off_duty_time l \<and>
     0 \<le> sleeper_berth_time l \<and> hours_in_range (time_entries l) \<and>
     0 \<le> dt_hour (date l) \<and> dt_hour (date l) \<le> 23"

subsection \<open>Sample inputs\<close>

text \<open>Nine driving hours followed by an off-duty hour, fifteen on-duty hours, twelve
  driving hours and three on-duty hours.\<close>

definition nine_then_off :: "time_entry list" where
  "nine_then_off =
     map (\<lambda>h. \<lparr>hour = h, status = Driving\<rparr>) [0, 1, 2, 3, 4, 5, 6, 7, 8] @
     [\<lparr>hour = 9, status = OffDuty\<rparr>]"

definition fifteen_on_duty :: "time_entry list" where
  "fifteen_on_duty =
     map (\<lambda>h. \<lparr>hour = h, status = OnDuty\<rparr>) [0, 1, 2, 3, 4, 5, 6, 7, 8, 9, 10, 11, 12, 13, 14]"

definition twelve_driving :: "time_entry list" where
  "twelve_driving =
     map (\<lambda>h. \<lparr>hour = h, status = Driving\<rparr>) [0, 1, 2, 3, 4, 5, 6, 7, 8, 9, 10, 11]"

definition three_on_duty :: "time_entry list" where
  "three_on_duty = map (\<lambda>h. \<lparr>hour = h, status = OnDuty\<rparr>) [8, 9, 10]"

text \<open>The doubles nearest to 0.05, to 0.35 and to \<open>664 / 60\<close>.\<close>

definition double_0_05 :: real where
  "double_0_05 = 3602879701896397 / 2 ^ 56"


definition double_664_60 :: real where
  "double_664_60 = 3114989742264593 / 2 ^ 48"

text \<open>Start times at hours 8, 13 and 20 of 2026-11-03 (day 739923), and at hour 8 of
  the last day of the calendar.\<close>

definition start_0800 :: date_time where
  "start_0800 = \<lparr>dt_day = 739923, dt_hour = 8\<rparr>"

definition start_1300 :: date_time where
  "start_1300 = \<lparr>dt_day = 739923, dt_hour = 13\<rparr>"

definition start_2000 :: date_time where
  "start_2000 = \<lparr>dt_day = 739923, dt_hour = 20\<rparr>"

definition last_day_0800 :: date_time where
  "last_day_0800 = \<lparr>dt_day = 3652059, dt_hour = 8\<rparr>"

section \<open>Rounding to the nearest double\<close>

lemma rhe_of_int: "round_half_even (of_int n) = n"
  by (simp add: round_half_even_def)

lemma rhe_ge_floor: "\<lfloor>r\<rfloor> \<le> round_half_even r"
  by (simp add: round_half_even_def)

lemma rhe_le_floor1: "round_half_even r \<le> \<lfloor>r\<rfloor> + 1"
  by (simp add: round_half_even_def)

lemma rhe_mono: "r \<le> s \<Longrightarrow> round_half_even r \<le> round_half_even s"
proof -
  assume rs: "r \<le> s"
  then have fl: "\<lfloor>r\<rfloor> \<le> \<lfloor>s\<rfloor>" by (rule floor_mono)
  show ?thesis
  proof (cases "\<lfloor>r\<rfloor> = \<lfloor>s\<rfloor>")
    case True
    with rs show ?thesis by (auto simp: round_half_even_def)
  next
    case False
    with fl have "\<lfloor>r\<rfloor> + 1 \<le> \<lfloor>s\<rfloor>" by simp
    with rhe_le_floor1 [of r] rhe_ge_floor [of s] show ?thesis by linarith
  qed
qed

lemma rhe_le_int: "r \<le> of_int n \<Longrightarrow> round_half_even r \<le> n"
  using rhe_mono [of r "of_int n"] by (simp add: rhe_of_int)

lemma rhe_ge_int: "of_int n \<le> r \<Longrightarrow> n \<le> round_half_even r"
  using rhe_mono [of "of_int n" r] by (simp add: rhe_of_int)

lemma quantum_pos: "0 < quantum x"
  by (simp add: quantum_def)

lemma binade_eq:
  assumes "2 powi e \<le> \<bar>x\<bar>" and "\<bar>x\<bar> < 2 powi (e + 1)" and "- 1022 \<le> e"
  shows "binade x = e"
proof -
  have pos: "0 < \<bar>x\<bar>" using assms(1) by (smt (verit) zero_less_power_int)
  have p: "(2::real) powr real_of_int k = 2 powi k" for k
    by (rule powr_real_of_int') simp_all
  have "real_of_int e + 1 = real_of_int (e + 1)" by simp
  then have "(2::real) powr (real_of_int e + 1) = 2 powi (e + 1)"
    by (simp only: p)
  moreover have "(2::real) powr real_of_int e = 2 powi e"
    by (rule p)
  ultimately have "\<lfloor>log 2 \<bar>x\<bar>\<rfloor> = e"
    using assms pos by (simp add: floor_log_eq_powr_iff)
  with pos assms(3) show ?thesis by (simp add: binade_def)
qed

lemma rd_eval:
  assumes "2 powi e \<le> \<bar>x\<bar>" and "\<bar>x\<bar> < 2 powi (e + 1)" and "- 1022 \<le> e"
  shows "rd x = of_int (round_half_even (x / 2 powi (e - 52))) * 2 powi (e - 52)"
  using binade_eq [OF assms] by (simp add: rd_def quantum_def)


lemma p2_add: "(2::real) powi (a + b) = 2 powi a * 2 powi b"
  by (rule power_int_add) simp

lemma p2_diff: "(2::real) powi (a - b) = 2 powi a / 2 powi b"
  by (rule power_int_diff) simp

lemma p2_mono: "a \<le> b \<Longrightarrow> (2::real) powi a \<le> 2 powi b"
  by (rule power_int_increasing) simp_all

lemma p2_strict_mono: "a < b \<Longrightarrow> (2::real) powi a < 2 powi b"
  by (rule power_int_strict_increasing) simp_all

lemma p2_less_iff: "(2::real) powi a < 2 powi b \<longleftrightarrow> a < b"
  using p2_mono [of b a] p2_strict_mono [of a b] by (auto simp: not_less [symmetric])

lemma p2_int: "0 \<le> d \<Longrightarrow> (2::real) powi d = of_int (2 ^ nat d)"
  by (simp add: power_int_def)

lemma floor_log_bounds:
  assumes "x \<noteq> 0"
  shows "2 powi \<lfloor>log 2 \<bar>x\<bar>\<rfloor> \<le> \<bar>x\<bar> \<and> \<bar>x\<bar> < 2 powi (\<lfloor>log 2 \<bar>x\<bar>\<rfloor> + 1)"
proof -
  have p: "(2::real) powr real_of_int k = 2 powi k" for k
    by (rule powr_real_of_int') simp_all
  have q: "real_of_int k + 1 = real_of_int (k + 1)" for k by simp
  from assms have "0 < \<bar>x\<bar>" by simp
  then have "2 powr real_of_int \<lfloor>log 2 \<bar>x\<bar>\<rfloor> \<le> \<bar>x\<bar> \<and>
             \<bar>x\<bar> < 2 powr (real_of_int \<lfloor>log 2 \<bar>x\<bar>\<rfloor> + 1)"
    using floor_log_eq_powr_iff [of "\<bar>x\<bar>" 2 "\<lfloor>log 2 \<bar>x\<bar>\<rfloor>"] by simp
  then show ?thesis by (simp only: q p)
qed

lemma binade_upper: "x \<noteq> 0 \<Longrightarrow> \<bar>x\<bar> < 2 powi (binade x + 1)"
proof -
  assume x: "x \<noteq> 0"
  have "\<lfloor>log 2 \<bar>x\<bar>\<rfloor> + 1 \<le> binade x + 1" using x by (simp add: binade_def)
  then have "(2::real) powi (\<lfloor>log 2 \<bar>x\<bar>\<rfloor> + 1) \<le> 2 powi (binade x + 1)" by (rule p2_mono)
  with floor_log_bounds [OF x] show ?thesis by linarith
qed

lemma binade_lower: "x \<noteq> 0 \<Longrightarrow> - 1022 < binade x \<Longrightarrow> 2 powi (binade x) \<le> \<bar>x\<bar>"
proof -
  assume x: "x \<noteq> 0" and b: "- 1022 < binade x"
  then have "binade x = \<lfloor>log 2 \<bar>x\<bar>\<rfloor>" by (simp add: binade_def max_def split: if_splits)
  with floor_log_bounds [OF x] show ?thesis by simp
qed

lemma binade_ge: "- 1022 \<le> binade x"
  by (simp add: binade_def)

lemma binade_mono: "0 < x \<Longrightarrow> x \<le> y \<Longrightarrow> binade x \<le> binade y"
proof -
  assume x: "0 < x" and xy: "x \<le> y"
  then have "log 2 \<bar>x\<bar> \<le> log 2 \<bar>y\<bar>" by simp
  then have "\<lfloor>log 2 \<bar>x\<bar>\<rfloor> \<le> \<lfloor>log 2 \<bar>y\<bar>\<rfloor>" by (rule floor_mono)
  with x xy show ?thesis by (simp add: binade_def)
qed

lemma rd_zero: "rd 0 = 0"
  by (simp add: rd_def rhe_of_int [of 0, simplified])

lemma rd_double:
  assumes "is_double x"
  shows "rd x = x"
proof (cases "x = 0")
  case True
  then show ?thesis by (simp add: rd_zero)
next
  case False
  from assms obtain m e where x: "x = of_int m * 2 powi e" and m: "\<bar>m\<bar> < 2 ^ 53"
    and e: "- 1074 \<le> e" by (auto simp: is_double_def)
  have "\<bar>x\<bar> = of_int \<bar>m\<bar> * 2 powi e" by (simp add: x abs_mult)
  also have "\<dots> < 2 ^ 53 * 2 powi e"
  proof -
    have "real_of_int \<bar>m\<bar> < real_of_int (2 ^ 53)" using m by (simp only: of_int_less_iff)
    then show ?thesis by simp
  qed
  also have "\<dots> = 2 powi (53 + e)" by (simp add: p2_add)
  finally have up: "\<bar>x\<bar> < 2 powi (53 + e)" .
  have "2 powi \<lfloor>log 2 \<bar>x\<bar>\<rfloor> < (2::real) powi (53 + e)"
    using floor_log_bounds [OF False] up by linarith
  then have "\<lfloor>log 2 \<bar>x\<bar>\<rfloor> < 53 + e" by (simp only: p2_less_iff)
  with e False have d: "0 \<le> e - (binade x - 52)" by (simp add: binade_def)
  have "x / quantum x = of_int m * (2 powi e / 2 powi (binade x - 52))"
    by (simp add: x quantum_def)
  also have "\<dots> = of_int m * 2 powi (e - (binade x - 52))" by (simp only: p2_diff)
  also have "\<dots> = of_int (m * 2 ^ nat (e - (binade x - 52)))"
    by (simp add: p2_int [OF d])
  finally have "round_half_even (x / quantum x) = m * 2 ^ nat (e - (binade x - 52))"
    by (simp only: rhe_of_int)
  then have "rd x = of_int m * (2 powi (e - (binade x - 52)) * 2 powi (binade x - 52))"
    by (simp add: rd_def quantum_def p2_int [OF d])
  also have "\<dots> = of_int m * 2 powi e"
    by (simp only: p2_add [symmetric]) simp
  finally show ?thesis by (simp add: x)
qed

lemma rd_nonneg: "0 \<le> x \<Longrightarrow> 0 \<le> rd x"
proof -
  assume "0 \<le> x"
  then have "real_of_int 0 \<le> x / quantum x" using quantum_pos [of x] by simp
  then have "0 \<le> round_half_even (x / quantum x)" by (rule rhe_ge_int)
  then show ?thesis using quantum_pos [of x] by (simp add: rd_def)
qed

lemma rd_le_top: "0 < x \<Longrightarrow> rd x \<le> 2 powi (binade x + 1)"
proof -
  assume x: "0 < x"
  then have "x < 2 powi (binade x + 1)" using binade_upper [of x] by simp
  then have "x / quantum x \<le> 2 powi (binade x + 1) / quantum x"
    using quantum_pos [of x] by (simp add: divide_right_mono)
  also have "2 powi (binade x + 1) / quantum x = (2::real) powi 53"
    by (simp add: quantum_def p2_diff [symmetric])
  also have "\<dots> = real_of_int (2 ^ 53)" by simp
  finally have "round_half_even (x / quantum x) \<le> 2 ^ 53" by (rule rhe_le_int)
  then have "real_of_int (round_half_even (x / quantum x)) \<le> real_of_int (2 ^ 53)"
    by (simp only: of_int_le_iff)
  then have "rd x \<le> 2 ^ 53 * quantum x"
    using quantum_pos [of x] by (simp add: rd_def)
  also have "\<dots> = 2 powi 53 * 2 powi (binade x - 52)" by (simp add: quantum_def)
  also have "\<dots> = 2 powi (binade x + 1)"
    by (simp only: p2_add [symmetric]) (simp add: add.commute)
  finally show ?thesis .
qed

lemma rd_ge_bottom: "0 < x \<Longrightarrow> - 1022 < binade x \<Longrightarrow> 2 powi (binade x) \<le> rd x"
proof -
  assume x: "0 < x" and b: "- 1022 < binade x"
  then have "2 powi (binade x) \<le> x" using binade_lower [of x] by simp
  then have "2 powi (binade x) / quantum x \<le> x / quantum x"
    using quantum_pos [of x] by (simp add: divide_right_mono)
  moreover have "2 powi (binade x) / quantum x = (2::real) powi 52"
    by (simp add: quantum_def p2_diff [symmetric])
  moreover have "(2::real) powi 52 = real_of_int (2 ^ 52)" by simp
  ultimately have "real_of_int (2 ^ 52) \<le> x / quantum x" by simp
  then have "2 ^ 52 \<le> round_half_even (x / quantum x)" by (rule rhe_ge_int)
  then have "real_of_int (2 ^ 52) \<le> real_of_int (round_half_even (x / quantum x))"
    by (simp only: of_int_le_iff)
  then have "2 ^ 52 * quantum x \<le> rd x"
    using quantum_pos [of x] by (simp add: rd_def)
  moreover have "2 ^ 52 * quantum x = 2 powi 52 * 2 powi (binade x - 52)"
    by (simp add: quantum_def)
  moreover have "\<dots> = 2 powi (binade x)" by (simp only: p2_add [symmetric]) simp
  ultimately show ?thesis by simp
qed

lemma rd_mono_nonneg:
  assumes "0 \<le> x" and "x \<le> y"
  shows "rd x \<le> rd y"
proof (cases "x = 0")
  case True
  with assms rd_nonneg [of y] show ?thesis by (simp add: rd_zero)
next
  case False
  with assms have x: "0 < x" and y: "0 < y" by simp_all
  have b: "binade x \<le> binade y" using x assms(2) by (rule binade_mono)
  show ?thesis
  proof (cases "binade x = binade y")
    case True
    then have q: "quantum x = quantum y" by (simp add: quantum_def)
    have "x / quantum y \<le> y / quantum y"
      using assms(2) quantum_pos [of y] by (simp add: divide_right_mono)
    then have "round_half_even (x / quantum y) \<le> round_half_even (y / quantum y)"
      by (rule rhe_mono)
    then have "real_of_int (round_half_even (x / quantum y)) \<le>
        real_of_int (round_half_even (y / quantum y))" by (simp only: of_int_le_iff)
    then show ?thesis using quantum_pos [of y] by (simp add: rd_def q)
  next
    case False
    with b have lt: "binade x + 1 \<le> binade y" by simp
    with binade_ge [of x] have "- 1022 < binade y" by simp
    from rd_ge_bottom [OF y this] rd_le_top [OF x] p2_mono [OF lt]
    show ?thesis by linarith
  qed
qed

lemma is_double_int: "\<bar>n\<bar> \<le> 2 ^ 53 \<Longrightarrow> is_double (of_int n)"
proof (cases "\<bar>n\<bar> = 2 ^ 53")
  case True
  then have "n = 2 ^ 53 \<or> n = - (2 ^ 53)" by linarith
  then have "real_of_int n = of_int (n div 2) * 2 powi 1 \<and> \<bar>n div 2\<bar> < 2 ^ 53"
    by auto
  then show ?thesis unfolding is_double_def by (intro exI [of _ "n div 2"] exI [of _ 1]) simp
next
  case False
  assume "\<bar>n\<bar> \<le> 2 ^ 53"
  with False have "real_of_int n = of_int n * 2 powi 0 \<and> \<bar>n\<bar> < 2 ^ 53" by simp
  then show ?thesis unfolding is_double_def by (intro exI [of _ n] exI [of _ 0]) simp
qed

lemma rd_of_int: "\<bar>n\<bar> \<le> 2 ^ 53 \<Longrightarrow> rd (of_int n) = of_int n"
  by (rule rd_double) (rule is_double_int)

lemma rd_numeral: "numeral k \<le> (2 ^ 53 :: int) \<Longrightarrow> rd (numeral k) = numeral k"
  using rd_of_int [of "numeral k"] by simp

lemma rd_one: "rd 1 = 1"
  using rd_of_int [of 1] by simp

lemma float_of_int_exact: "\<bar>n\<bar> \<le> 2 ^ 53 \<Longrightarrow> float_of_int n = of_int n"
  by (simp add: float_of_int_def rd_of_int)

lemma float_of_int_numeral:
  "numeral k \<le> (2 ^ 53 :: int) \<Longrightarrow> float_of_int (numeral k) = numeral k"
  using float_of_int_exact [of "numeral k"] by simp

lemma rd_between:
  assumes "0 \<le> x" and "x \<le> 2 ^ 53"
  shows "of_int \<lfloor>x\<rfloor> \<le> rd x \<and> rd x \<le> of_int \<lceil>x\<rceil>"
proof -
  have f0: "0 \<le> \<lfloor>x\<rfloor>" using assms(1) by simp
  have "\<lfloor>x\<rfloor> \<le> \<lfloor>(2::real) ^ 53\<rfloor>" using assms(2) by (rule floor_mono)
  then have f1: "\<lfloor>x\<rfloor> \<le> 2 ^ 53" by simp
  have "\<lceil>x\<rceil> \<le> \<lceil>(2::real) ^ 53\<rceil>" using assms(2) by (rule ceiling_mono)
  then have c1: "\<lceil>x\<rceil> \<le> 2 ^ 53" by simp
  have c0: "0 \<le> \<lceil>x\<rceil>" using assms(1) by simp
  have "rd (of_int \<lfloor>x\<rfloor>) \<le> rd x"
    using f0 by (intro rd_mono_nonneg) simp_all
  moreover have "rd x \<le> rd (of_int \<lceil>x\<rceil>)"
    using assms(1) by (intro rd_mono_nonneg) simp_all
  ultimately show ?thesis
    using f0 f1 c0 c1 by (simp add: rd_of_int)
qed

lemma is_double_minus_int:
  assumes "is_double r" and "0 \<le> n" and "of_int n < r" and "r < 2 ^ 53"
  shows "is_double (r - of_int n)"
proof -
  from assms(1) obtain m e where r: "r = of_int m * 2 powi e" and m: "\<bar>m\<bar> < 2 ^ 53"
    and e: "- 1074 \<le> e" "e \<le> 971" by (auto simp: is_double_def)
  show ?thesis
  proof (cases "0 \<le> e")
    case True
    have "r = of_int (m * 2 ^ nat e)" by (simp add: r p2_int [OF True])
    then have "r - of_int n = of_int (m * 2 ^ nat e - n)" by simp
    have "\<bar>m * 2 ^ nat e - n\<bar> \<le> 2 ^ 53"
    proof -
      have "real_of_int (m * 2 ^ nat e) < real_of_int (2 ^ 53)"
        using assms(4) \<open>r = of_int (m * 2 ^ nat e)\<close> by simp
      then have "m * 2 ^ nat e < 2 ^ 53" by (simp only: of_int_less_iff)
      moreover have "real_of_int n < real_of_int (m * 2 ^ nat e)"
        using assms(3) \<open>r = of_int (m * 2 ^ nat e)\<close> by simp
      then have "n < m * 2 ^ nat e" by (simp only: of_int_less_iff)
      ultimately show ?thesis using assms(2) by linarith
    qed
    then have "is_double (of_int (m * 2 ^ nat e - n))" by (rule is_double_int)
    with \<open>r - of_int n = of_int (m * 2 ^ nat e - n)\<close> show ?thesis by simp
  next
    case False
    then have ne: "0 \<le> - e" by simp
    have inv: "(2::real) powi e * 2 powi (- e) = 1"
      by (simp only: p2_add [symmetric]) simp
    have "of_int n = of_int n * ((2::real) powi (- e) * 2 powi e)"
      using inv by (simp add: mult.commute)
    also have "\<dots> = of_int (n * 2 ^ nat (- e)) * 2 powi e"
      by (simp add: p2_int [OF ne])
    finally have "r - of_int n = of_int (m - n * 2 ^ nat (- e)) * 2 powi e"
      by (simp add: r algebra_simps)
    moreover have "\<bar>m - n * 2 ^ nat (- e)\<bar> < 2 ^ 53"
    proof -
      have "0 \<le> n * 2 ^ nat (- e)" using assms(2) by simp
      moreover have "n * 2 ^ nat (- e) < m"
      proof -
        have "real_of_int n * 2 powi (- e) < (of_int m * 2 powi e) * 2 powi (- e)"
          using assms(3) r by (simp add: mult_strict_right_mono)
        also have "\<dots> = of_int m" using inv by (simp add: mult.assoc)
        finally have "real_of_int (n * 2 ^ nat (- e)) < real_of_int m"
          by (simp add: p2_int [OF ne])
        then show ?thesis by (simp only: of_int_less_iff)
      qed
      ultimately show ?thesis using m by linarith
    qed
    ultimately show ?thesis using e unfolding is_double_def by blast
  qed
qed

section \<open>Evaluation rules\<close>

lemma str_nat_small: "n < 10 \<Longrightarrow> str_nat n = [digit_char n]"
  by (simp add: str_nat.simps)

lemma str_nat_big: "10 \<le> n \<Longrightarrow> str_nat n = str_nat (n div 10) @ [digit_char (n mod 10)]"
  by (subst str_nat.simps) simp

lemmas fmt_simps =
  format_time_def str_int_def fmt_02d_def str_nat_small str_nat_big digit_char_def
  fmt_1f_def round_half_even_def

lemma format_time_660: "format_time 660 = ''11h 00m''"
  by (simp add: fmt_simps)

lemma format_time_840: "format_time 840 = ''14h 00m''"
  by (simp add: fmt_simps)

lemma format_time_480: "format_time 480 = ''8h 00m''"
  by (simp add: fmt_simps)

section \<open>Remaining time and cycle usage\<close>

lemma on_duty_count: "on_duty_minutes es = 60 * (count_status Driving es + count_status OnDuty es)"
  by (induction es) (auto simp: on_duty_minutes_def count_status_def)

lemma driving_count: "driving_minutes es = 60 * count_status Driving es"
  by (simp add: driving_minutes_def count_status_def)

lemma cycle_used_count:
  "cycle_used_hours es c =
     fadd c (rd (of_int (count_status Driving es + count_status OnDuty es)))"
proof -
  have "real_of_int (60 * (count_status Driving es + count_status OnDuty es)) / real_of_int 60 =
        of_int (count_status Driving es + count_status OnDuty es)" by simp
  then show ?thesis by (simp only: cycle_used_hours_def int_true_div_def on_duty_count)
qed

lemma count_status_nonneg: "0 \<le> count_status s es"
  by (simp add: count_status_def)

text \<open>
  C1.  For every sequence of entries and every starting cycle value, with \<open>d\<close> the
  number of driving entries and \<open>o\<close> the number of on-duty entries,
  \<^verbatim>\<open>calculate_hos_status\<close> computes a remaining drive time of \<open>max 0 (660 - 60 d)\<close>
  minutes and a remaining on-duty time of \<open>max 0 (840 - 60 (d + o))\<close> minutes, which
  it returns rendered by \<^verbatim>\<open>_format_time\<close>.  The used cycle is the float sum of the
  starting value and the \<open>d + o\<close> hours (each matching entry counts a full hour): the
  sum rounded to the nearest double, hence the sum itself whenever that is a double.
  It is returned rendered with one decimal.
\<close>

theorem hos_status_remaining:
  "drive_time_left_minutes es = max 0 (660 - 60 * count_status Driving es) \<and>
   on_duty_left_minutes es = max 0 (840 - 60 * (count_status Driving es + count_status OnDuty es)) \<and>
   cycle_used_hours es c =
     fadd c (rd (of_int (count_status Driving es + count_status OnDuty es))) \<and>
   (count_status Driving es + count_status OnDuty es \<le> 2 ^ 53 \<longrightarrow>
      cycle_used_hours es c =
        fadd c (of_int (count_status Driving es + count_status OnDuty es))) \<and>
   (count_status Driving es + count_status OnDuty es \<le> 2 ^ 53 \<longrightarrow>
    is_double (c + of_int (count_status Driving es + count_status OnDuty es)) \<longrightarrow>
      cycle_used_hours es c =
        c + of_int (count_status Driving es + count_status OnDuty es)) \<and>
   drive_time_left (calculate_hos_status es c) =
     format_time (max 0 (660 - 60 * count_status Driving es)) \<and>
   on_duty_left (calculate_hos_status es c) =
     format_time (max 0 (840 - 60 * (count_status Driving es + count_status OnDuty es))) \<and>
   cycle_used (calculate_hos_status es c) =
     fmt_1f (fadd c (rd (of_int (count_status Driving es + count_status OnDuty es)))) @
     ''h / 70h''"
proof -
  let ?n = "count_status Driving es + count_status OnDuty es"
  have n0: "0 \<le> ?n" using count_status_nonneg [of Driving es] count_status_nonneg [of OnDuty es]
    by simp
  have ex: "?n \<le> 2 ^ 53 \<Longrightarrow> rd (of_int ?n) = of_int ?n"
    using n0 by (intro rd_of_int) simp
  have a: "?n \<le> 2 ^ 53 \<longrightarrow> cycle_used_hours es c = fadd c (of_int ?n)"
    using ex by (simp add: cycle_used_count)
  have b: "?n \<le> 2 ^ 53 \<longrightarrow> is_double (c + of_int ?n) \<longrightarrow>
      cycle_used_hours es c = c + of_int ?n"
    using ex by (auto simp: cycle_used_count fadd_def rd_double)
  from a b show ?thesis
    by (simp add: calculate_hos_status_def drive_time_left_minutes_def on_duty_left_minutes_def
        cycle_used_count on_duty_count driving_count)
qed

lemma three_on_duty_counts:
  "count_status Driving three_on_duty = 0" "count_status OnDuty three_on_duty = 3"
  by (simp_all add: three_on_duty_def count_status_def)

lemma rd_0_05_plus_3: "rd (double_0_05 + 3) = 6867989431740006 / 2 ^ 51"
  using rd_eval [of 1 "double_0_05 + 3"]
  by (simp add: double_0_05_def round_half_even_def)

text \<open>
  Three on-duty hours on a cycle of 0.05: the float sum is the double below 3.05 and
  is rendered \<open>3.0h / 70h\<close>.  On a cycle of 35.5 the sum is exact.
\<close>

theorem hos_status_remaining_witness:
  "count_status Driving three_on_duty + count_status OnDuty three_on_duty \<le> 2 ^ 53 \<and>
   is_double (35.5 + of_int (count_status Driving three_on_duty +
     count_status OnDuty three_on_duty)) \<and>
   cycle_used_hours three_on_duty 35.5 = 38.5 \<and>
   cycle_used_hours three_on_duty double_0_05 = 6867989431740006 / 2 ^ 51 \<and>
   cycle_used (calculate_hos_status three_on_duty double_0_05) = ''3.0h / 70h''"
proof -
  have n: "count_status Driving three_on_duty + count_status OnDuty three_on_duty = 3"
    by (simp add: three_on_duty_counts)
  have "is_double (real_of_int 77 * 2 powi (- 1))"
    unfolding is_double_def by (intro exI [of _ 77] exI [of _ "- 1"]) simp
  then have d: "is_double (35.5 + real_of_int 3)" by simp
  have r3: "rd (real_of_int 3) = 3" using rd_of_int [of 3] by simp
  have e: "fadd double_0_05 (rd (real_of_int 3)) = 6867989431740006 / 2 ^ 51"
    unfolding r3 fadd_def rd_0_05_plus_3 by simp
  have f: "fmt_1f (6867989431740006 / 2 ^ 51) = ''3.0''"
    by (simp add: fmt_simps)
  from hos_status_remaining [of three_on_duty "35.5"] d
  have a: "cycle_used_hours three_on_duty 35.5 = 35.5 + real_of_int 3"
    unfolding n by simp
  from hos_status_remaining [of three_on_duty double_0_05]
  have b: "cycle_used_hours three_on_duty double_0_05 =
      fadd double_0_05 (rd (real_of_int 3))"
    and c: "cycle_used (calculate_hos_status three_on_duty double_0_05) =
      fmt_1f (fadd double_0_05 (rd (real_of_int 3))) @ ''h / 70h''"
    unfolding n by blast+
  from a have a': "cycle_used_hours three_on_duty 35.5 = 38.5" by simp
  from b have b': "cycle_used_hours three_on_duty double_0_05 = 6867989431740006 / 2 ^ 51"
    by (simp only: e)
  from c have c': "cycle_used (calculate_hos_status three_on_duty double_0_05) = ''3.0h / 70h''"
    by (simp only: e f) simp
  from n d a' b' c' show ?thesis by (simp only: n) simp
qed

section \<open>Trailing streak and longest run\<close>

lemma cd_loop_append:
  "continuous_driving_loop (xs @ ys) a = continuous_driving_loop ys (continuous_driving_loop xs a)"
  by (induction xs arbitrary: a) simp_all

lemma trailing_snoc:
  "trailing_streak (xs @ [x]) = (if is_driving x then Suc (trailing_streak xs) else 0)"
  by (simp add: trailing_streak_def)

lemma cd_final_trailing: "continuous_driving_final es = int (trailing_streak es)"
proof (induction es rule: rev_induct)
  case Nil
  show ?case by (simp add: continuous_driving_final_def trailing_streak_def)
next
  case (snoc x xs)
  then show ?case
    by (simp add: continuous_driving_final_def cd_loop_append trailing_snoc is_driving_def)
qed

lemma mc_loop_append:
  "max_continuous_loop (xs @ ys) st = max_continuous_loop ys (max_continuous_loop xs st)"
  by (induction xs st rule: max_continuous_loop.induct) simp_all

lemma run_le_trailing:
  "list_all is_driving ys \<Longrightarrow> length ys \<le> trailing_streak (ps @ ys)"
proof -
  assume a: "list_all is_driving ys"
  then have "takeWhile is_driving (rev ys @ rev ps) = rev ys @ takeWhile is_driving (rev ps)"
    by (intro takeWhile_append2) (auto simp: list_all_iff)
  then show ?thesis by (simp add: trailing_streak_def)
qed

lemma trailing_run:
  assumes "n \<le> trailing_streak zs"
  shows "\<exists>ps ys. zs = ps @ ys \<and> length ys = n \<and> list_all is_driving ys"
proof -
  let ?t = "rev (takeWhile is_driving (rev zs))"
  let ?d = "rev (dropWhile is_driving (rev zs))"
  have zs: "zs = ?d @ ?t"
    by (metis rev_append rev_rev_ident takeWhile_dropWhile_id)
  have all: "list_all is_driving ?t"
    by (simp add: list_all_iff) (meson set_takeWhileD)
  have len: "length ?t = trailing_streak zs" by (simp add: trailing_streak_def)
  let ?k = "length ?t - n"
  have "zs = (?d @ take ?k ?t) @ drop ?k ?t" using zs by simp
  moreover have "length (drop ?k ?t) = n" using assms len by simp
  moreover have "list_all is_driving (drop ?k ?t)"
    using all by (metis append_take_drop_id list_all_append)
  ultimately show ?thesis by blast
qed

lemma has_run_snoc:
  "has_driving_run (xs @ [x]) n \<longleftrightarrow> has_driving_run xs n \<or> n \<le> trailing_streak (xs @ [x])"
proof
  assume "has_driving_run (xs @ [x]) n"
  then obtain ps ys ss where e: "xs @ [x] = ps @ ys @ ss" and l: "length ys = n"
    and d: "list_all is_driving ys" by (auto simp: has_driving_run_def)
  show "has_driving_run xs n \<or> n \<le> trailing_streak (xs @ [x])"
  proof (cases ss rule: rev_cases)
    case Nil
    with e d l show ?thesis using run_le_trailing [of ys ps] by simp
  next
    case (snoc ss' y)
    with e have "xs = ps @ ys @ ss'" by simp
    with l d show ?thesis by (auto simp: has_driving_run_def)
  qed
next
  assume "has_driving_run xs n \<or> n \<le> trailing_streak (xs @ [x])"
  then show "has_driving_run (xs @ [x]) n"
  proof
    assume "has_driving_run xs n"
    then obtain ps ys ss where "xs = ps @ ys @ ss" "length ys = n" "list_all is_driving ys"
      by (auto simp: has_driving_run_def)
    then have "xs @ [x] = ps @ ys @ (ss @ [x]) \<and> length ys = n \<and> list_all is_driving ys"
      by simp
    then show ?thesis unfolding has_driving_run_def by blast
  next
    assume "n \<le> trailing_streak (xs @ [x])"
    from trailing_run [OF this] obtain ps ys where
      "xs @ [x] = ps @ ys @ [] \<and> length ys = n \<and> list_all is_driving ys" by auto
    then show ?thesis unfolding has_driving_run_def by blast
  qed
qed

lemma mc_loop_step:
  "max_continuous_loop [x] st =
     (if status x = Driving then (fst st + 1, max (snd st) (fst st + 1)) else (0, snd st))"
  by (cases st) simp

lemma mc_loop_fst:
  "fst (max_continuous_loop es (0, 0)) = int (trailing_streak es)"
proof (induction es rule: rev_induct)
  case Nil
  show ?case by (simp add: trailing_streak_def)
next
  case (snoc x xs)
  then show ?case
    by (simp add: mc_loop_append mc_loop_step trailing_snoc is_driving_def)
qed

lemma mc_final_snoc:
  "max_continuous_final (xs @ [x]) =
     (if is_driving x then max (max_continuous_final xs) (int (trailing_streak (xs @ [x])))
      else max_continuous_final xs)"
  by (simp add: max_continuous_final_def mc_loop_append mc_loop_step mc_loop_fst
      trailing_snoc is_driving_def add.commute)

lemma mc_final_nonneg: "0 \<le> max_continuous_final es"
proof (induction es rule: rev_induct)
  case Nil
  show ?case by (simp add: max_continuous_final_def)
next
  case (snoc x xs)
  then show ?case by (simp add: mc_final_snoc max_def)
qed

lemma has_run_iff: "has_driving_run es n \<longleftrightarrow> int n \<le> max_continuous_final es"
proof (induction es rule: rev_induct)
  case Nil
  show ?case by (auto simp: has_driving_run_def max_continuous_final_def)
next
  case (snoc x xs)
  then show ?case
    using mc_final_nonneg [of xs] by (auto simp: has_run_snoc mc_final_snoc trailing_snoc)
qed

lemma long_run_iff: "(\<exists>n>8. has_driving_run es n) \<longleftrightarrow> 8 < max_continuous_final es"
proof
  assume "\<exists>n>8. has_driving_run es n"
  then obtain n where "8 < n" "int n \<le> max_continuous_final es" by (auto simp: has_run_iff)
  then show "8 < max_continuous_final es" by linarith
next
  assume "8 < max_continuous_final es"
  then have "int 9 \<le> max_continuous_final es" by simp
  then have "has_driving_run es 9" by (simp only: has_run_iff)
  then show "\<exists>n>8. has_driving_run es n" by (intro exI [of _ 9]) simp
qed

lemma violation_types:
  "map violation_type (calculate_violations es c) =
     (if 660 < driving_minutes es then [driving_limit] else []) @
     (if 840 < on_duty_minutes es then [duty_limit] else []) @
     (if 70 < cycle_used_hours es c then [duty_limit] else []) @
     (if 8 < max_continuous_final es then [break_required] else [])"
  by (simp add: calculate_violations_def)

lemma next_break_trailing:
  "next_break (calculate_hos_status es c) = format_time (max 0 (480 - 60 * int (trailing_streak es)))"
  by (simp add: calculate_hos_status_def next_break_minutes_def cd_final_trailing mult.commute)

lemma nine_then_off_cd: "continuous_driving_final nine_then_off = 0"
  by (simp add: nine_then_off_def continuous_driving_final_def)

lemma nine_then_off_mc: "max_continuous_final nine_then_off = 9"
  by (simp add: nine_then_off_def max_continuous_final_def)

lemma in_image_types:
  "k \<in> violation_type ` set vs \<longleftrightarrow> k \<in> set (map violation_type vs)"
  by simp

text \<open>
  C2.  For every sequence of entries, \<^verbatim>\<open>calculate_hos_status\<close> derives the next
  break from the trailing streak of driving entries (any other entry resets the
  counter): \<open>next_break = max 0 (480 - 60 * trailing streak)\<close> minutes.
  \<^verbatim>\<open>calculate_violations\<close> tracks the longest driving run anywhere in the sequence
  and reports \<^verbatim>\<open>break_required\<close> exactly when a run longer than 8 exists.  The two
  disagree on nine driving hours followed by an off-duty hour: the next break reads
  \<open>8h 00m\<close> and the violation is reported.
\<close>

theorem break_trailing_vs_longest:
  "continuous_driving_final es = int (trailing_streak es) \<and>
   next_break_minutes es = max 0 (480 - 60 * int (trailing_streak es)) \<and>
   next_break (calculate_hos_status es c) =
     format_time (max 0 (480 - 60 * int (trailing_streak es))) \<and>
   (\<forall>n. has_driving_run es n \<longleftrightarrow> int n \<le> max_continuous_final es) \<and>
   (break_required \<in> violation_type ` set (calculate_violations es c)
      \<longleftrightarrow> (\<exists>n>8. has_driving_run es n)) \<and>
   next_break (calculate_hos_status nine_then_off c) = ''8h 00m'' \<and>
   break_required \<in> violation_type ` set (calculate_violations nine_then_off c)"
proof -
  have a: "continuous_driving_final es = int (trailing_streak es)"
    by (rule cd_final_trailing)
  have b: "next_break_minutes es = max 0 (480 - 60 * int (trailing_streak es))"
    by (simp add: next_break_minutes_def cd_final_trailing)
  have c: "\<forall>n. has_driving_run es n \<longleftrightarrow> int n \<le> max_continuous_final es"
    by (simp add: has_run_iff)
  have d: "break_required \<in> violation_type ` set (calculate_violations es c)
      \<longleftrightarrow> (\<exists>n>8. has_driving_run es n)"
    unfolding in_image_types violation_types long_run_iff by simp
  have e: "next_break (calculate_hos_status nine_then_off c) = ''8h 00m''"
    by (simp add: calculate_hos_status_def next_break_minutes_def nine_then_off_cd format_time_480)
  have f: "break_required \<in> violation_type ` set (calculate_violations nine_then_off c)"
    unfolding in_image_types violation_types by (simp add: nine_then_off_mc)
  from a b c d e f next_break_trailing [of es c] show ?thesis by blast
qed

lemma violation_types_counts:
  "map violation_type (calculate_violations es c) =
     (if 660 < 60 * count_status Driving es then [driving_limit] else []) @
     (if 840 < 60 * (count_status Driving es + count_status OnDuty es)
      then [duty_limit] else []) @
     (if 70 < fadd c (rd (of_int (count_status Driving es + count_status OnDuty es)))
      then [duty_limit] else []) @
     (if \<exists>n>8. has_driving_run es n then [break_required] else [])"
  unfolding long_run_iff
  by (simp only: violation_types driving_count on_duty_count cycle_used_count)

lemma twelve_driving_counts:
  "count_status Driving twelve_driving = 12" "count_status OnDuty twelve_driving = 0"
  "max_continuous_final twelve_driving = 12"
  by (simp_all add: twelve_driving_def count_status_def max_continuous_final_def)

lemma fifteen_on_duty_counts:
  "count_status Driving fifteen_on_duty = 0" "count_status OnDuty fifteen_on_duty = 15"
  "max_continuous_final fifteen_on_duty = 0"
  by (simp_all add: fifteen_on_duty_def count_status_def max_continuous_final_def)

text \<open>
  C3.  For every sequence of entries and starting cycle value, with \<open>d\<close> driving
  and \<open>o\<close> on-duty entries, the violations returned are, in this order and with
  nothing else: \<^verbatim>\<open>driving_limit\<close> iff the driving minutes \<open>60 d\<close> exceed 660;
  \<^verbatim>\<open>duty_limit\<close> iff the on-duty minutes \<open>60 (d + o)\<close> exceed 840; a further
  \<^verbatim>\<open>duty_limit\<close> iff the used cycle hours, the float sum of the starting value and
  \<open>d + o\<close>, exceed 70; and \<^verbatim>\<open>break_required\<close> iff some driving run is longer than
  8.  Each check adds at most one violation.  Both \<^verbatim>\<open>duty_limit\<close> entries occur
  together for fifteen on-duty hours on a cycle of 60, and twelve driving hours give
  \<^verbatim>\<open>driving_limit\<close> and \<^verbatim>\<open>break_required\<close>.
\<close>

theorem violations_exactly:
  "map violation_type (calculate_violations es c) =
     (if 660 < 60 * count_status Driving es then [driving_limit] else []) @
     (if 840 < 60 * (count_status Driving es + count_status OnDuty es)
      then [duty_limit] else []) @
     (if 70 < fadd c (rd (of_int (count_status Driving es + count_status OnDuty es)))
      then [duty_limit] else []) @
     (if \<exists>n>8. has_driving_run es n then [break_required] else []) \<and>
   driving_minutes es = 60 * count_status Driving es \<and>
   on_duty_minutes es = 60 * (count_status Driving es + count_status OnDuty es) \<and>
   cycle_used_hours es c =
     fadd c (rd (of_int (count_status Driving es + count_status OnDuty es))) \<and>
   (driving_limit \<in> violation_type ` set (calculate_violations es c)
      \<longleftrightarrow> 660 < 60 * count_status Driving es) \<and>
   (duty_limit \<in> violation_type ` set (calculate_violations es c)
      \<longleftrightarrow> 840 < 60 * (count_status Driving es + count_status OnDuty es) \<or>
          70 < fadd c (rd (of_int (count_status Driving es + count_status OnDuty es)))) \<and>
   (break_required \<in> violation_type ` set (calculate_violations es c)
      \<longleftrightarrow> (\<exists>n>8. has_driving_run es n)) \<and>
   length (calculate_violations es c) \<le> 4 \<and>
   map violation_type (calculate_violations fifteen_on_duty 60) = [duty_limit, duty_limit] \<and>
   map violation_type (calculate_violations twelve_driving 0) =
     [driving_limit, break_required]"
proof -
  note a = violation_types_counts [of es c]
  have b: "driving_limit \<in> violation_type ` set (calculate_violations es c)
      \<longleftrightarrow> 660 < 60 * count_status Driving es"
    unfolding in_image_types violation_types_counts by simp
  have c: "duty_limit \<in> violation_type ` set (calculate_violations es c)
      \<longleftrightarrow> 840 < 60 * (count_status Driving es + count_status OnDuty es) \<or>
          70 < fadd c (rd (of_int (count_status Driving es + count_status OnDuty es)))"
    unfolding in_image_types violation_types_counts by simp
  have d: "break_required \<in> violation_type ` set (calculate_violations es c)
      \<longleftrightarrow> (\<exists>n>8. has_driving_run es n)"
    unfolding in_image_types violation_types_counts by simp
  have e: "length (calculate_violations es c) \<le> 4"
    by (simp add: calculate_violations_def)
  have f: "map violation_type (calculate_violations fifteen_on_duty 60) =
      [duty_limit, duty_limit]"
    unfolding violation_types_counts long_run_iff
    by (simp add: fifteen_on_duty_counts fadd_def rd_numeral)
  have g: "map violation_type (calculate_violations twelve_driving 0) =
      [driving_limit, break_required]"
    unfolding violation_types_counts long_run_iff
    by (simp add: twelve_driving_counts fadd_def rd_numeral)
  from a b c d e f g driving_count [of es] on_duty_count [of es] cycle_used_count [of es c]
  show ?thesis by blast
qed

lemma cycle_used_empty: "cycle_used_hours [] c = c"
  by (simp add: cycle_used_hours_def on_duty_minutes_def int_true_div_def fadd_def rd_zero)

text \<open>
  C4, as stated, fails: with no entries and a starting cycle of 71 hours the status is
  not compliant and a \<^verbatim>\<open>duty_limit\<close> violation is returned.
\<close>

theorem empty_entries_counterexample:
  "\<not> is_compliant (calculate_hos_status [] 71) \<and>
   map violation_type (calculate_violations [] 71) = [duty_limit]"
  by (simp add: calculate_hos_status_def violation_types cycle_used_empty
      driving_minutes_def on_duty_minutes_def max_continuous_final_def)

text \<open>
  C4, amended.  With no entries all minute counts and both streak counters are zero
  and the remaining times are \<open>11h 00m\<close>, \<open>14h 00m\<close> and \<open>8h 00m\<close> for every
  starting cycle value; the status is compliant, and the list of violations empty,
  exactly when the starting cycle value is at most 70.
\<close>

theorem empty_entries:
  "driving_minutes [] = 0 \<and> on_duty_minutes [] = 0 \<and>
   continuous_driving_final [] = 0 \<and> max_continuous_final [] = 0 \<and>
   drive_time_left (calculate_hos_status [] c) = ''11h 00m'' \<and>
   on_duty_left (calculate_hos_status [] c) = ''14h 00m'' \<and>
   next_break (calculate_hos_status [] c) = ''8h 00m'' \<and>
   (is_compliant (calculate_hos_status [] c) \<longleftrightarrow> c \<le> 70) \<and>
   (calculate_violations [] c = [] \<longleftrightarrow> c \<le> 70)"
  by (simp add: calculate_hos_status_def calculate_violations_def cycle_used_empty
      driving_minutes_def on_duty_minutes_def max_continuous_final_def
      continuous_driving_final_def drive_time_left_minutes_def on_duty_left_minutes_def
      next_break_minutes_def format_time_660 format_time_840 format_time_480 not_less)

section \<open>The stop sequence\<close>

lemma fuel_loop_closed:
  "fuel_loop pc js (stops, n) =
     (stops @ map (\<lambda>k. fuel_stop pc (n + int k) (js ! k)) [0..<length js], n + int (length js))"
proof (induction js arbitrary: stops n)
  case Nil
  show ?case by simp
next
  case (Cons j js)
  have "map (\<lambda>k. fuel_stop pc (n + int k) ((j # js) ! k)) [0..<length (j # js)] =
        fuel_stop pc n j # map (\<lambda>k. fuel_stop pc (n + 1 + int k) (js ! k)) [0..<length js]"
    by (simp add: map_upt_Suc del: upt_Suc) (simp add: algebra_simps)
  with Cons show ?case by simp
qed

lemma rest_loop_closed:
  "rest_loop pc js (stops, n) =
     (stops @ map (\<lambda>k. rest_stop pc (n + int k) (js ! k)) [0..<length js], n + int (length js))"
proof (induction js arbitrary: stops n)
  case Nil
  show ?case by simp
next
  case (Cons j js)
  have "map (\<lambda>k. rest_stop pc (n + int k) ((j # js) ! k)) [0..<length (j # js)] =
        rest_stop pc n j # map (\<lambda>k. rest_stop pc (n + 1 + int k) (js ! k)) [0..<length js]"
    by (simp add: map_upt_Suc del: upt_Suc) (simp add: algebra_simps)
  with Cons show ?case by simp
qed

lemma length_py_range: "length (py_range n) = nat n"
  by (simp add: py_range_def)

lemma fuel_stops_needed_floor: "fuel_stops_needed d = \<lfloor>d / 1000\<rfloor>"
  by (simp add: fuel_stops_needed_def py_floordiv_def py_int_def)

lemma rest_stops_needed_floor: "rest_stops_needed t = \<lfloor>t / 60 / 11\<rfloor>"
  by (simp add: rest_stops_needed_def py_floordiv_def py_int_def)

lemma generate_stops_closed:
  "generate_stops cl pl dl cc pc dc miles dur =
     pickup_stop pl pc 1 #
     map (\<lambda>k. fuel_stop pc (2 + int k) (int k)) [0..<nat \<lfloor>miles / 1000\<rfloor>] @
     map (\<lambda>k. rest_stop pc (2 + int (nat \<lfloor>miles / 1000\<rfloor>) + int k) (int k))
       [0..<nat \<lfloor>dur / 60 / 11\<rfloor>] @
     [dropoff_stop dl dc (2 + int (nat \<lfloor>miles / 1000\<rfloor>) + int (nat \<lfloor>dur / 60 / 11\<rfloor>))]"
  by (simp add: generate_stops_def Let_def fuel_loop_closed rest_loop_closed length_py_range
      fuel_stops_needed_floor rest_stops_needed_floor py_range_def)

lemma stops_kinds:
  "map stop_type (generate_stops cl pl dl cc pc dc miles dur) =
     pickup # replicate (nat \<lfloor>miles / 1000\<rfloor>) fuel @
     replicate (nat \<lfloor>dur / 60 / 11\<rfloor>) rest @ [dropoff]"
  by (simp add: generate_stops_closed comp_def map_replicate_const
      pickup_stop_def fuel_stop_def rest_stop_def dropoff_stop_def)

lemma stops_durations:
  "map duration (generate_stops cl pl dl cc pc dc miles dur) =
     60 # replicate (nat \<lfloor>miles / 1000\<rfloor>) 30 @
     replicate (nat \<lfloor>dur / 60 / 11\<rfloor>) 600 @ [60]"
  by (simp add: generate_stops_closed comp_def map_replicate_const
      pickup_stop_def fuel_stop_def rest_stop_def dropoff_stop_def)

lemma stops_required:
  "list_all required (generate_stops cl pl dl cc pc dc miles dur)"
  by (auto simp: generate_stops_closed list_all_iff
      pickup_stop_def fuel_stop_def rest_stop_def dropoff_stop_def)

lemma stops_coordinates:
  "map coordinates (generate_stops cl pl dl cc pc dc miles dur) =
     replicate (1 + nat \<lfloor>miles / 1000\<rfloor> + nat \<lfloor>dur / 60 / 11\<rfloor>) [snd pc, fst pc] @
     [[snd dc, fst dc]]"
  by (simp add: generate_stops_closed comp_def map_replicate_const replicate_add
      pickup_stop_def fuel_stop_def rest_stop_def dropoff_stop_def)

text \<open>
  C7.  For non-negative total distance and duration the planned stops are, in this
  order: one pickup stop (60 minutes), then \<open>floor (distance / 1000)\<close> fuel stops
  (30 minutes each), then \<open>floor ((duration / 60) / 11)\<close> rest stops (600 minutes
  each), then one dropoff stop (60 minutes).  Every stop is required; the fuel and
  rest stops carry the coordinates of the pickup stop.
\<close>

theorem stop_sequence:
  assumes "0 \<le> total_distance" and "0 \<le> total_duration"
  shows "map stop_type (generate_stops cl pl dl cc pc dc total_distance total_duration) =
           pickup # replicate (nat \<lfloor>total_distance / 1000\<rfloor>) fuel @
           replicate (nat \<lfloor>total_duration / 60 / 11\<rfloor>) rest @ [dropoff] \<and>
         map duration (generate_stops cl pl dl cc pc dc total_distance total_duration) =
           60 # replicate (nat \<lfloor>total_distance / 1000\<rfloor>) 30 @
           replicate (nat \<lfloor>total_duration / 60 / 11\<rfloor>) 600 @ [60] \<and>
         list_all required (generate_stops cl pl dl cc pc dc total_distance total_duration) \<and>
         map coordinates (generate_stops cl pl dl cc pc dc total_distance total_duration) =
           replicate (1 + nat \<lfloor>total_distance / 1000\<rfloor> + nat \<lfloor>total_duration / 60 / 11\<rfloor>)
             [snd pc, fst pc] @ [[snd dc, fst dc]] \<and>
         int (nat \<lfloor>total_distance / 1000\<rfloor>) = \<lfloor>total_distance / 1000\<rfloor> \<and>
         int (nat \<lfloor>total_duration / 60 / 11\<rfloor>) = \<lfloor>total_duration / 60 / 11\<rfloor>"
proof -
  have "0 \<le> total_distance / 1000" "0 \<le> total_duration / 60 / 11"
    using assms by simp_all
  then have "0 \<le> \<lfloor>total_distance / 1000\<rfloor>" "0 \<le> \<lfloor>total_duration / 60 / 11\<rfloor>"
    by (simp_all only: zero_le_floor)
  then show ?thesis
    by (simp add: stops_kinds stops_durations stops_required stops_coordinates)
qed

text \<open>
  For 2500 miles and 900 minutes: two fuel stops and one rest stop between pickup and
  dropoff.
\<close>

theorem stop_sequence_witness:
  "(0::real) \<le> 2500 \<and> (0::real) \<le> 900 \<and>
   map stop_type (generate_stops ''Dallas'' ''Austin'' ''Denver'' (0, 0) (1, 2) (3, 4) 2500 900) =
     [pickup, fuel, fuel, rest, dropoff] \<and>
   map duration (generate_stops ''Dallas'' ''Austin'' ''Denver'' (0, 0) (1, 2) (3, 4) 2500 900) =
     [60, 30, 30, 600, 60] \<and>
   map coordinates (generate_stops ''Dallas'' ''Austin'' ''Denver'' (0, 0) (1, 2) (3, 4) 2500 900) =
     [[2, 1], [2, 1], [2, 1], [2, 1], [4, 3]]"
  using stop_sequence [of 2500 900 "''Dallas''" "''Austin''" "''Denver''" "(0, 0)" "(1, 2)" "(3, 4)"]
  by (simp add: eval_nat_numeral)

section \<open>The single-day log\<close>

lemma hours_loop_closed:
  "hours_loop ch dh hs (es, rs) =
     (es @ map (\<lambda>h. \<lparr>hour = h, status = fst (hour_step ch dh h)\<rparr>) hs,
      rs @ concat (map (\<lambda>h. snd (hour_step ch dh h)) hs))"
  by (induction hs arbitrary: es rs) simp_all

lemma log_entries:
  "time_entries (log_for_trip st d dh) =
     map (\<lambda>h. \<lparr>hour = h, status = fst (hour_step (dt_hour st) dh h)\<rparr>) (py_range 24)"
  by (simp add: log_for_trip_def Let_def hours_loop_closed)

lemma log_fields:
  "driving_time (log_for_trip st d dh) = py_int (fmul dh 60)"
  "on_duty_time (log_for_trip st d dh) = py_int (fmul dh 60) + 120"
  "off_duty_time (log_for_trip st d dh) = 1440 - (py_int (fmul dh 60) + 120)"
  "sleeper_berth_time (log_for_trip st d dh) = 0"
  "log_is_compliant (log_for_trip st d dh) \<longleftrightarrow> dh \<le> 11 \<and> py_int (fmul dh 60) + 120 \<le> 840"
  by (simp_all add: log_for_trip_def Let_def float_of_int_numeral)

lemma generate_log_cases:
  "generate_log_for_trip st d dh = Inr L \<Longrightarrow> L = log_for_trip st d dh"
  by (simp add: generate_log_for_trip_def split: if_splits)

lemma fmul_nonneg: "0 \<le> x \<Longrightarrow> 0 \<le> y \<Longrightarrow> 0 \<le> fmul x y"
  by (simp add: fmul_def rd_nonneg)


lemma generate_log_returns:
  assumes "0 \<le> dh" and "dh * 60 \<le> 2 ^ 53"
  shows "generate_log_for_trip st d dh = Inr (log_for_trip st d dh)"
proof -
  have nn: "0 \<le> dh * 60" using assms(1) by simp
  from rd_between [OF nn assms(2)] have "fmul dh 60 \<le> of_int \<lceil>dh * 60\<rceil>"
    by (simp add: fmul_def)
  moreover have "\<lceil>dh * 60\<rceil> \<le> \<lceil>(2::real) ^ 53\<rceil>" using assms(2) by (rule ceiling_mono)
  then have "\<lceil>dh * 60\<rceil> \<le> 2 ^ 53" by simp
  then have "real_of_int \<lceil>dh * 60\<rceil> \<le> real_of_int (2 ^ 53)" by (simp only: of_int_le_iff)
  moreover have "real_of_int (2 ^ 53) < 2 ^ 1024"
    by (simp only: of_int_power of_int_numeral) (rule power_strict_increasing, simp_all)
  ultimately have "fmul dh 60 < 2 ^ 1024" by (rule order.strict_trans1 [OF order.trans])
  moreover have "0 \<le> fmul dh 60" using assms(1) by (simp add: fmul_nonneg)
  ultimately have "\<bar>fmul dh 60\<bar> < 2 ^ 1024" by (simp only: abs_of_nonneg)
  then show ?thesis by (simp add: generate_log_for_trip_def float_of_int_numeral)
qed

lemma py_range_24: "py_range 24 = [0, 1, 2, 3, 4, 5, 6, 7, 8, 9, 10, 11, 12, 13, 14, 15, 16, 17, 18, 19, 20, 21, 22, 23]"
  by (simp add: py_range_def upt_conv_Cons)

lemma set_py_range: "set (py_range n) = {0..<n}"
proof (rule set_eqI)
  fix k :: int
  have "k \<in> int ` {0..<nat n} \<longleftrightarrow> 0 \<le> k \<and> k < n"
  proof
    assume "k \<in> int ` {0..<nat n}"
    then obtain m where "k = int m" "m < nat n" by auto
    then show "0 \<le> k \<and> k < n" by simp
  next
    assume "0 \<le> k \<and> k < n"
    then have "k = int (nat k)" "nat k < nat n" by simp_all
    then show "k \<in> int ` {0..<nat n}" by (metis atLeastLessThan_iff image_eqI le0)
  qed
  then show "k \<in> set (py_range n) \<longleftrightarrow> k \<in> {0..<n}" by (simp add: py_range_def)
qed

lemma distinct_py_range: "distinct (py_range n)"
  by (simp add: py_range_def distinct_map inj_on_def)

lemma hour_step_driving:
  "fst (hour_step ch dh h) = Driving \<longleftrightarrow> ch + 1 \<le> h \<and> of_int h < driving_end ch dh"
  by (auto simp: hour_step_def)

lemma count_status_entries:
  "count_status Driving (map (\<lambda>h. \<lparr>hour = h, status = fst (hour_step ch dh h)\<rparr>) hs) =
     int (length (filter (\<lambda>h. ch + 1 \<le> h \<and> of_int h < driving_end ch dh) hs))"
  by (simp add: count_status_def filter_map comp_def hour_step_driving)

lemma driving_end_ge:
  assumes "0 \<le> ch" and "ch \<le> 23" and "0 \<le> dh"
  shows "of_int (ch + 1) \<le> driving_end ch dh"
proof -
  have x: "float_of_int (ch + 1) = of_int (ch + 1)"
    using assms(1,2) by (intro float_of_int_exact) simp
  have "rd (of_int (ch + 1)) \<le> rd (of_int (ch + 1) + dh)"
    using assms(1,3) by (intro rd_mono_nonneg) simp_all
  moreover have "rd (of_int (ch + 1)) = of_int (ch + 1)"
    using assms(1,2) by (intro rd_of_int) simp
  ultimately show ?thesis by (simp add: driving_end_def x fadd_def)
qed

lemma driving_hours_set:
  assumes "0 \<le> ch"
  shows "{h. ch + 1 \<le> h \<and> real_of_int h < S} \<inter> {0..<24} = {ch + 1..min 23 (\<lceil>S\<rceil> - 1)}"
proof (rule set_eqI)
  fix h :: int
  have "real_of_int h < S \<longleftrightarrow> h < \<lceil>S\<rceil>" by (simp only: less_ceiling_iff)
  with assms show "h \<in> {h. ch + 1 \<le> h \<and> real_of_int h < S} \<inter> {0..<24}
      \<longleftrightarrow> h \<in> {ch + 1..min 23 (\<lceil>S\<rceil> - 1)}"
    by auto
qed

lemma driving_entries_count:
  assumes "0 \<le> dt_hour st" and "dt_hour st \<le> 23" and "0 \<le> dh"
  shows "count_status Driving (time_entries (log_for_trip st d dh)) =
         min (\<lceil>driving_end (dt_hour st) dh\<rceil> - dt_hour st - 1) (23 - dt_hour st)"
proof -
  let ?S = "driving_end (dt_hour st) dh"
  let ?P = "\<lambda>h. dt_hour st + 1 \<le> h \<and> real_of_int h < ?S"
  define c where "c = \<lceil>?S\<rceil>"
  have "length (filter ?P (py_range 24)) = card ({h. ?P h} \<inter> set (py_range 24))"
    by (rule distinct_length_filter) (rule distinct_py_range)
  also have "\<dots> = card {dt_hour st + 1..min 23 (c - 1)}"
    using driving_hours_set [OF assms(1), of ?S] by (simp only: set_py_range c_def)
  also have "\<dots> = nat (min 23 (c - 1) - dt_hour st)"
    by simp
  finally have "int (length (filter ?P (py_range 24))) =
      int (nat (min 23 (c - 1) - dt_hour st))" by simp
  moreover have "dt_hour st + 1 \<le> c"
    using driving_end_ge [OF assms] unfolding c_def by (simp only: le_ceiling_iff)
  ultimately have "int (length (filter ?P (py_range 24))) =
      min (c - dt_hour st - 1) (23 - dt_hour st)"
    using assms(2) by (simp add: min_def)
  then show ?thesis unfolding c_def by (simp only: log_entries count_status_entries)
qed

lemma is_double_dyadic:
  assumes "\<bar>m\<bar> < 2 ^ 53" and "- 1074 \<le> e" and "e \<le> 971"
  shows "is_double (of_int m * 2 powi e)"
  unfolding is_double_def using assms by blast

lemma rd_half: "0 \<le> c \<Longrightarrow> c \<le> 23 \<Longrightarrow> rd (of_int (60 * c) + 1 / 2) = of_int (60 * c) + 1 / 2"
proof -
  assume a: "0 \<le> c" "c \<le> 23"
  have "is_double (of_int (120 * c + 1) * 2 powi (- 1))"
    using a by (intro is_double_dyadic) simp_all
  moreover have "real_of_int (120 * c + 1) * 2 powi (- 1) = of_int (60 * c) + 1 / 2"
    by (simp add: power_int_minus field_simps)
  ultimately show ?thesis by (simp only: rd_double)
qed

lemma rd_128th: "0 \<le> n \<Longrightarrow> n \<le> 48 \<Longrightarrow> rd (of_int n + 1 / 128) = of_int n + 1 / 128"
proof -
  assume a: "0 \<le> n" "n \<le> 48"
  have "is_double (of_int (128 * n + 1) * 2 powi (- 7))"
    using a by (intro is_double_dyadic) simp_all
  moreover have "real_of_int (128 * n + 1) * 2 powi (- 7) = of_int n + 1 / 128"
    by (simp add: power_int_minus field_simps)
  ultimately show ?thesis by (simp only: rd_double)
qed

lemma undercount_iff:
  assumes "0 \<le> ch" and "ch \<le> 23" and "0 \<le> dh"
  shows "60 * min (\<lceil>driving_end ch dh\<rceil> - ch - 1) (23 - ch) < py_int (fmul dh 60) \<longleftrightarrow>
         60 * (23 - ch) < py_int (fmul dh 60)"
proof
  assume a: "60 * (23 - ch) < py_int (fmul dh 60)"
  have "min (\<lceil>driving_end ch dh\<rceil> - ch - 1) (23 - ch) \<le> 23 - ch"
    by (rule min.cobounded2)
  then have "60 * min (\<lceil>driving_end ch dh\<rceil> - ch - 1) (23 - ch) \<le> 60 * (23 - ch)"
    by (rule mult_left_mono) simp
  then show "60 * min (\<lceil>driving_end ch dh\<rceil> - ch - 1) (23 - ch) < py_int (fmul dh 60)"
    using a by (rule le_less_trans)
next
  define c where "c = \<lceil>driving_end ch dh\<rceil> - ch - 1"
  assume u: "60 * min (\<lceil>driving_end ch dh\<rceil> - ch - 1) (23 - ch) < py_int (fmul dh 60)"
  show "60 * (23 - ch) < py_int (fmul dh 60)"
  proof (rule ccontr)
    assume n: "\<not> 60 * (23 - ch) < py_int (fmul dh 60)"
    from u have "60 * min c (23 - ch) < py_int (fmul dh 60)" by (simp only: c_def)
    with n have lt: "c < 23 - ch" and m: "60 * c < py_int (fmul dh 60)"
      by (simp_all add: min_def split: if_splits)
    have "of_int (ch + 1) \<le> driving_end ch dh" using assms by (rule driving_end_ge)
    then have "ch + 1 \<le> \<lceil>driving_end ch dh\<rceil>" by (simp only: le_ceiling_iff)
    then have c0: "0 \<le> c" unfolding c_def by linarith
    have nn: "0 \<le> fmul dh 60" using assms(3) by (simp add: fmul_nonneg)
    with m have "60 * c + 1 \<le> \<lfloor>fmul dh 60\<rfloor>" by (simp add: py_int_def)
    then have ge: "of_int (60 * c + 1) \<le> fmul dh 60" by (simp only: le_floor_iff)
    have big: "of_int (60 * c) + 1 / 2 < dh * 60"
    proof (rule ccontr)
      assume "\<not> of_int (60 * c) + 1 / 2 < dh * 60"
      then have "dh * 60 \<le> of_int (60 * c) + 1 / 2" by simp
      moreover have "0 \<le> dh * 60" using assms(3) by simp
      ultimately have le: "rd (dh * 60) \<le> rd (of_int (60 * c) + 1 / 2)" by (intro rd_mono_nonneg)
      have "c \<le> 23" using lt assms(1) by simp
      with c0 have h: "rd (of_int (60 * c) + 1 / 2) = of_int (60 * c) + 1 / 2" by (rule rd_half)
      from le have "fmul dh 60 \<le> of_int (60 * c) + 1 / 2" unfolding fmul_def h .
      with ge show False by simp
    qed
    then have dh: "of_int c + 1 / 128 \<le> dh" by simp
    then have "dh \<noteq> 0" using c0 by auto
    then have S: "driving_end ch dh = rd (of_int (ch + 1) + dh)"
      using assms(1,2) by (simp add: driving_end_def fadd_def float_of_int_exact)
    have "0 \<le> ch + 1 + c" "ch + 1 + c \<le> 48" using assms(1) c0 lt by simp_all
    then have "rd (of_int (ch + 1 + c) + 1 / 128) = of_int (ch + 1 + c) + 1 / 128"
      by (rule rd_128th)
    moreover have "rd (of_int (ch + 1 + c) + 1 / 128) \<le> rd (of_int (ch + 1) + dh)"
      using dh assms(1) c0 by (intro rd_mono_nonneg) simp_all
    ultimately have "of_int (ch + 1 + c) < driving_end ch dh"
      unfolding S by linarith
    then have "ch + 1 + c < \<lceil>driving_end ch dh\<rceil>" by (simp only: less_ceiling_iff)
    then show False unfolding c_def by linarith
  qed
qed








lemma hour_step_no_sleeper: "fst (hour_step ch dh h) \<noteq> SleeperBerth"
  by (simp add: hour_step_def)

lemma driving_end_numeral:
  "driving_end 13 10 = 24" "driving_end 20 10 = 31" "driving_end 20 23 = 44"
  by (simp_all add: driving_end_def fadd_def float_of_int_numeral rd_numeral)

lemma fmul_numeral: "fmul 10 60 = 600" "fmul 23 60 = 1380" "fmul 11 60 = 660" "fmul 3 60 = 180"
  by (simp_all add: fmul_def rd_numeral)

text \<open>
  C10, as stated, fails in its last clause: a start at hour 13 with 10 driving hours
  has \<open>13 + 10 + 2 > 24\<close>, yet the ten driving entries (hours 14 to 23) account
  for exactly the reported 600 minutes; only the dropoff hour is cut off.
\<close>

theorem log_entries_shape_counterexample:
  "24 < real_of_int (dt_hour start_1300) + 10 + 2 \<and>
   generate_log_for_trip start_1300 500 10 = Inr (log_for_trip start_1300 500 10) \<and>
   driving_minutes (time_entries (log_for_trip start_1300 500 10)) = 600 \<and>
   driving_time (log_for_trip start_1300 500 10) = 600"
proof -
  have a: "24 < real_of_int (dt_hour start_1300) + 10 + 2" by (simp add: start_1300_def)
  have b: "generate_log_for_trip start_1300 500 10 = Inr (log_for_trip start_1300 500 10)"
    by (rule generate_log_returns) simp_all
  have "count_status Driving (time_entries (log_for_trip start_1300 500 10)) = 10"
    using driving_entries_count [of start_1300 10 500]
    by (simp add: start_1300_def driving_end_numeral)
  then have c: "driving_minutes (time_entries (log_for_trip start_1300 500 10)) = 600"
    by (simp add: driving_count)
  have d: "driving_time (log_for_trip start_1300 500 10) = 600"
    by (simp add: log_fields fmul_numeral py_int_def)
  from a b c d show ?thesis by blast
qed

text \<open>
  C10, amended.  For a start hour in \<open>[0, 23]\<close> and non-negative driving hours a
  returned log has exactly 24 entries with hours 0 to 23 in ascending order, each
  off-duty, on-duty or driving (never sleeper-berth).  The driving entries are those
  of the hours from the start hour plus 1 that lie below the float sum
  \<open>driving_end\<close> of start hour, 1 and driving hours; segments that would pass hour 23
  are cut off, so that the number of driving entries is the minimum of
  \<open>ceiling driving_end - start hour - 1\<close> and \<open>23 - start hour\<close>.  The minutes the
  driving entries stand for are fewer than the reported driving time exactly when the
  reported driving time exceeds \<open>60 * (23 - start hour)\<close>.
\<close>

theorem log_entries_shape:
  assumes "0 \<le> dt_hour start_time" and "dt_hour start_time \<le> 23" and "0 \<le> driving_hours"
    and "generate_log_for_trip start_time distance_miles driving_hours = Inr L"
  shows "map hour (time_entries L) =
           [0, 1, 2, 3, 4, 5, 6, 7, 8, 9, 10, 11, 12, 13, 14, 15, 16, 17, 18, 19, 20, 21, 22, 23] \<and>
         length (time_entries L) = 24 \<and>
         list_all (\<lambda>entry. status entry = OffDuty \<or> status entry = OnDuty \<or> status entry = Driving)
           (time_entries L) \<and>
         list_all (\<lambda>entry. status entry = Driving \<longleftrightarrow>
             dt_hour start_time + 1 \<le> hour entry \<and>
             of_int (hour entry) < driving_end (dt_hour start_time) driving_hours)
           (time_entries L) \<and>
         count_status Driving (time_entries L) =
           min (\<lceil>driving_end (dt_hour start_time) driving_hours\<rceil> - dt_hour start_time - 1)
               (23 - dt_hour start_time) \<and>
         (driving_minutes (time_entries L) < driving_time L \<longleftrightarrow>
            60 * (23 - dt_hour start_time) < driving_time L)"
proof -
  have L: "L = log_for_trip start_time distance_miles driving_hours"
    using assms(4) by (rule generate_log_cases)
  have a: "map hour (time_entries L) =
      [0, 1, 2, 3, 4, 5, 6, 7, 8, 9, 10, 11, 12, 13, 14, 15, 16, 17, 18, 19, 20, 21, 22, 23]"
    by (simp add: L log_entries comp_def py_range_24)
  have b: "length (time_entries L) = 24"
    by (simp add: L log_entries length_py_range)
  have "fst (hour_step ch dh h) = OffDuty \<or> fst (hour_step ch dh h) = OnDuty \<or>
        fst (hour_step ch dh h) = Driving" for ch dh h
    by (simp add: hour_step_def)
  then have c: "list_all (\<lambda>entry. status entry = OffDuty \<or> status entry = OnDuty \<or>
      status entry = Driving) (time_entries L)"
    by (simp add: L log_entries list_all_iff)
  have c': "list_all (\<lambda>entry. status entry = Driving \<longleftrightarrow>
             dt_hour start_time + 1 \<le> hour entry \<and>
             of_int (hour entry) < driving_end (dt_hour start_time) driving_hours)
           (time_entries L)"
    by (simp add: L log_entries list_all_iff hour_step_driving)
  have d: "count_status Driving (time_entries L) =
      min (\<lceil>driving_end (dt_hour start_time) driving_hours\<rceil> - dt_hour start_time - 1)
          (23 - dt_hour start_time)"
    unfolding L using assms(1-3) by (rule driving_entries_count)
  have e: "driving_minutes (time_entries L) < driving_time L \<longleftrightarrow>
      60 * (23 - dt_hour start_time) < driving_time L"
    using undercount_iff [OF assms(1-3)]
    by (simp only: driving_count d) (simp only: L log_fields)
  from a b c c' d e show ?thesis by blast
qed

text \<open>
  A start at hour 20 with 10 driving hours: three driving entries, 180 minutes against
  the reported 600.
\<close>

theorem log_entries_shape_witness:
  "0 \<le> dt_hour start_2000 \<and> dt_hour start_2000 \<le> 23 \<and> (0::real) \<le> 10 \<and>
   generate_log_for_trip start_2000 500 10 = Inr (log_for_trip start_2000 500 10) \<and>
   length (time_entries (log_for_trip start_2000 500 10)) = 24 \<and>
   count_status Driving (time_entries (log_for_trip start_2000 500 10)) = 3 \<and>
   driving_time (log_for_trip start_2000 500 10) = 600 \<and>
   driving_minutes (time_entries (log_for_trip start_2000 500 10))
     < driving_time (log_for_trip start_2000 500 10)"
proof -
  have g: "generate_log_for_trip start_2000 500 10 = Inr (log_for_trip start_2000 500 10)"
    by (rule generate_log_returns) simp_all
  have h: "0 \<le> dt_hour start_2000" "dt_hour start_2000 \<le> 23" "(0::real) \<le> 10"
    by (simp_all add: start_2000_def)
  have t: "driving_time (log_for_trip start_2000 500 10) = 600"
    by (simp add: log_fields fmul_numeral py_int_def)
  have e: "\<lceil>driving_end (dt_hour start_2000) 10\<rceil> = 31"
    by (simp add: start_2000_def driving_end_numeral)
  from log_entries_shape [OF h g]
  have "length (time_entries (log_for_trip start_2000 500 10)) = 24"
    "count_status Driving (time_entries (log_for_trip start_2000 500 10)) =
       min (\<lceil>driving_end (dt_hour start_2000) 10\<rceil> - dt_hour start_2000 - 1)
           (23 - dt_hour start_2000)"
    "driving_minutes (time_entries (log_for_trip start_2000 500 10))
       < driving_time (log_for_trip start_2000 500 10) \<longleftrightarrow>
     60 * (23 - dt_hour start_2000) < driving_time (log_for_trip start_2000 500 10)"
    by blast+
  then have "length (time_entries (log_for_trip start_2000 500 10)) = 24"
    "count_status Driving (time_entries (log_for_trip start_2000 500 10)) = 3"
    "driving_minutes (time_entries (log_for_trip start_2000 500 10))
       < driving_time (log_for_trip start_2000 500 10)"
    unfolding e t by (simp_all add: start_2000_def)
  with g h t show ?thesis by blast
qed

section \<open>The multi-day loop\<close>

lemma daily_log_returns:
  assumes "0 < r"
  shows "generate_log_for_trip t dd (min 11 r) = Inr (log_for_trip t dd (min 11 r))"
proof (rule generate_log_returns)
  show "0 \<le> min 11 r" using assms by simp
  have "min 11 r * 60 \<le> 660" by (simp add: min_def)
  also have "\<dots> \<le> (2::real) ^ 53" by simp
  finally show "min 11 r * 60 \<le> 2 ^ 53" .
qed

lemma step_overflow:
  assumes "0 < remaining_hours s" and "T \<noteq> 0" and "max_ordinal \<le> dt_day (current_date s)"
  shows "multi_day_step D T s = Inl OverflowError"
  using assms by (simp add: multi_day_step_def Let_def daily_log_returns)

lemma step_ok:
  assumes "0 < remaining_hours s" and "T \<noteq> 0" and "dt_day (current_date s) < max_ordinal"
  shows "\<exists>s'. multi_day_step D T s = Inr s' \<and>
     logs s' = logs s @
       [eld_log.extend
          (log_for_trip (current_date s)
             (fmul (fdiv (min 11 (remaining_hours s)) T) D) (min 11 (remaining_hours s)))
          (daily_log.fields (current_date s)
             (round2 (fmul (fdiv (min 11 (remaining_hours s)) T) D)))] \<and>
     remaining_hours s' = fsub (remaining_hours s) (min 11 (remaining_hours s)) \<and>
     dt_day (current_date s') = dt_day (current_date s) + 1 \<and>
     dt_hour (current_date s') =
       (if 0 < fsub (remaining_hours s) (min 11 (remaining_hours s))
        then (dt_hour (current_date s) + 10) mod 24 else dt_hour (current_date s))"
  using assms by (simp add: multi_day_step_def Let_def daily_log_returns)

lemma step_cases:
  assumes "multi_day_step D T s = Inr s'" and "0 < remaining_hours s"
  shows "logs s' = logs s @
       [eld_log.extend
          (log_for_trip (current_date s)
             (fmul (fdiv (min 11 (remaining_hours s)) T) D) (min 11 (remaining_hours s)))
          (daily_log.fields (current_date s)
             (round2 (fmul (fdiv (min 11 (remaining_hours s)) T) D)))] \<and>
     remaining_hours s' = fsub (remaining_hours s) (min 11 (remaining_hours s)) \<and>
     dt_day (current_date s') = dt_day (current_date s) + 1 \<and>
     dt_hour (current_date s') =
       (if 0 < fsub (remaining_hours s) (min 11 (remaining_hours s))
        then (dt_hour (current_date s) + 10) mod 24 else dt_hour (current_date s))"
proof -
  from assms(1) have "T \<noteq> 0" by (auto simp: multi_day_step_def Let_def)
  moreover from assms(1) have "dt_day (current_date s) < max_ordinal"
    by (auto simp: multi_day_step_def Let_def split: if_splits sum.splits)
  ultimately show ?thesis using step_ok [OF assms(2), of T D] assms(1) by auto
qed

lemma step_remaining_distance:
  "map_sum id logs (multi_day_step D T (s\<lparr>remaining_distance := x\<rparr>)) =
   map_sum id logs (multi_day_step D T s)"
  by (simp add: multi_day_step_def Let_def split: sum.splits)

lemma fsub_exact:
  assumes "is_double T" and "T < 2 ^ 53" and "of_int n < T" and "0 \<le> n"
  shows "rd (T - of_int n) = T - of_int n"
  using assms by (intro rd_double is_double_minus_int)

lemma fsub_daily:
  assumes "is_double T" and "T < 2 ^ 53" and "11 * real j < T"
  shows "fsub (T - 11 * real j) (min 11 (T - 11 * real j)) = max 0 (T - 11 * real (Suc j))"
proof (cases "11 * real (Suc j) < T")
  case True
  then have "real_of_int (11 * int (Suc j)) < T" by simp
  from fsub_exact [OF assms(1,2) this]
  have "rd (T - 11 * real (Suc j)) = T - 11 * real (Suc j)" by simp
  moreover have e: "T - 11 * real j - 11 = T - 11 * real (Suc j)" by simp
  ultimately have "rd (T - 11 * real j - 11) = T - 11 * real (Suc j)" by (simp only: e)
  moreover have "min 11 (T - 11 * real j) = 11" using True by (simp add: min_def)
  moreover have "max 0 (T - 11 * real (Suc j)) = T - 11 * real (Suc j)"
    using True by (simp add: max_def)
  ultimately show ?thesis by (simp only: fsub_def)
next
  case False
  then have "min 11 (T - 11 * real j) = T - 11 * real j" by (simp add: min_def)
  moreover have "max 0 (T - 11 * real (Suc j)) = 0" using False by (simp add: max_def)
  ultimately show ?thesis by (simp add: fsub_def rd_zero)
qed

lemma nth_date_Suc:
  "\<lparr>dt_day = dt_day (nth_date st k) + 1, dt_hour = (dt_hour (nth_date st k) + 10) mod 24\<rparr> =
   nth_date st (Suc k)"
proof -
  have "(dt_hour (nth_date st k) + 10) mod 24 = (dt_hour st + 10 * int (Suc k)) mod 24"
    by (simp add: nth_date_def mod_simps algebra_simps)
  moreover have "dt_day (nth_date st k) + 1 = dt_day st + int (Suc k)"
    by (simp add: nth_date_def)
  ultimately show ?thesis by (simp add: nth_date_def)
qed

lemma days_below:
  assumes "n = nat \<lceil>T / 11\<rceil>"
  shows "j < n \<longleftrightarrow> 11 * real j < T"
proof -
  have "j < n \<longleftrightarrow> int j < \<lceil>T / 11\<rceil>" using assms by auto
  also have "\<dots> \<longleftrightarrow> real_of_int (int j) < T / 11" by (simp only: less_ceiling_iff)
  also have "\<dots> \<longleftrightarrow> 11 * real j < T" by (simp add: field_simps)
  finally show ?thesis .
qed

lemma loop_unfold:
  assumes "0 < remaining_hours s" and "multi_day_step D T s = Inr s1"
  shows "multi_day_loop D T s = multi_day_loop D T s1"
  using assms by (subst multi_day_loop.simps) simp

lemma loop_raise:
  assumes "0 < remaining_hours s" and "multi_day_step D T s = Inl e"
  shows "multi_day_loop D T s = Inl e"
  using assms by (subst multi_day_loop.simps) simp

lemma loop_closed:
  assumes n: "n = nat \<lceil>T / 11\<rceil>" and dbl: "is_double T" and small: "T < 2 ^ 53"
    and bound: "dt_day st + int n \<le> max_ordinal"
  shows "j \<le> n \<Longrightarrow> remaining_hours s = max 0 (T - 11 * real j) \<Longrightarrow>
         dt_day (current_date s) = dt_day st + int j \<Longrightarrow>
         (j < n \<longrightarrow> current_date s = nth_date st j) \<Longrightarrow>
         \<exists>s'. multi_day_loop D T s = Inr s' \<and>
              logs s' = logs s @ map (nth_daily_log st D T) [j..<n] \<and>
              remaining_hours s' = 0"
proof (induction "n - j" arbitrary: j s)
  case 0
  then have "j = n" by simp
  then have "\<not> 11 * real j < T" using days_below [OF n, of j] by simp
  with 0 have r: "remaining_hours s = 0" by (simp add: max_def)
  then have "multi_day_loop D T s = Inr s" by (simp add: multi_day_loop.simps)
  with r \<open>j = n\<close> show ?case by simp
next
  case (Suc d)
  then have lt: "j < n" by simp
  then have pos: "11 * real j < T" using days_below [OF n, of j] by simp
  with Suc.prems have r: "remaining_hours s = T - 11 * real j" by (simp add: max_def)
  from lt Suc.prems have cd: "current_date s = nth_date st j" by simp
  have "0 \<le> 11 * real j" by simp
  with pos have T0: "T \<noteq> 0" by linarith
  have rpos: "0 < remaining_hours s" using r pos by simp
  have day: "dt_day (current_date s) < max_ordinal" using Suc.prems(3) lt bound by simp
  from step_ok [OF rpos T0 day, of D] obtain s1 where
    st1: "multi_day_step D T s = Inr s1"
    and l1: "logs s1 = logs s @
       [eld_log.extend
          (log_for_trip (current_date s)
             (fmul (fdiv (min 11 (remaining_hours s)) T) D) (min 11 (remaining_hours s)))
          (daily_log.fields (current_date s)
             (round2 (fmul (fdiv (min 11 (remaining_hours s)) T) D)))]"
    and r1: "remaining_hours s1 = fsub (remaining_hours s) (min 11 (remaining_hours s))"
    and d1: "dt_day (current_date s1) = dt_day (current_date s) + 1"
    and h1: "dt_hour (current_date s1) =
       (if 0 < fsub (remaining_hours s) (min 11 (remaining_hours s))
        then (dt_hour (current_date s) + 10) mod 24 else dt_hour (current_date s))"
    by blast
  have unfold: "multi_day_loop D T s = multi_day_loop D T s1"
    using rpos st1 by (rule loop_unfold)
  have r': "remaining_hours s1 = max 0 (T - 11 * real (Suc j))"
    unfolding r1 r using dbl small pos by (rule fsub_daily)
  have day': "dt_day (current_date s1) = dt_day st + int (Suc j)"
    using d1 Suc.prems(3) by simp
  have d': "Suc j < n \<longrightarrow> current_date s1 = nth_date st (Suc j)"
  proof
    assume "Suc j < n"
    then have "11 * real (Suc j) < T" using days_below [OF n, of "Suc j"] by simp
    then have "0 < remaining_hours s1" unfolding r' by (simp add: max_def)
    then have "dt_hour (current_date s1) = (dt_hour (nth_date st j) + 10) mod 24"
      using h1 r1 cd by simp
    moreover have "dt_day (current_date s1) = dt_day (nth_date st j) + 1"
      using d1 cd by simp
    ultimately have "current_date s1 =
        \<lparr>dt_day = dt_day (nth_date st j) + 1, dt_hour = (dt_hour (nth_date st j) + 10) mod 24\<rparr>"
      by simp
    then show "current_date s1 = nth_date st (Suc j)" by (simp only: nth_date_Suc)
  qed
  have l': "logs s1 = logs s @ [nth_daily_log st D T j]"
    unfolding l1 by (simp add: r cd nth_daily_log_def nth_daily_distance_def nth_daily_hours_def)
  from Suc.hyps lt have "d = n - Suc j" "Suc j \<le> n" by simp_all
  from Suc.hyps(1) [OF this r' day' d'] obtain s' where
    "multi_day_loop D T s1 = Inr s'"
    "logs s' = logs s1 @ map (nth_daily_log st D T) [Suc j..<n]"
    "remaining_hours s' = 0" by blast
  with unfold l' lt show ?case by (simp add: upt_conv_Cons)
qed

lemma loop_overflow_exact:
  assumes n: "n = nat \<lceil>T / 11\<rceil>" and dbl: "is_double T" and small: "T < 2 ^ 53"
    and bound: "max_ordinal < dt_day st + int n"
  shows "dt_day st + int j \<le> max_ordinal \<Longrightarrow> remaining_hours s = T - 11 * real j \<Longrightarrow>
         dt_day (current_date s) = dt_day st + int j \<Longrightarrow>
         multi_day_loop D T s = Inl OverflowError"
proof (induction "nat (max_ordinal - dt_day st - int j)" arbitrary: j s)
  case 0
  then have last: "max_ordinal \<le> dt_day (current_date s)" by simp
  from 0 bound have "j < n" by simp
  then have pos: "11 * real j < T" using days_below [OF n, of j] by simp
  have "0 \<le> 11 * real j" by simp
  with pos have T0: "T \<noteq> 0" by linarith
  have rpos: "0 < remaining_hours s" using 0 pos by simp
  from rpos step_overflow [OF rpos T0 last, of D] show ?case by (rule loop_raise)
next
  case (Suc d)
  then have day: "dt_day (current_date s) < max_ordinal" by simp
  with Suc.prems bound have "Suc j < n" by simp
  then have pos': "11 * real (Suc j) < T" using days_below [OF n, of "Suc j"] by simp
  then have pos: "11 * real j < T" by simp
  have "0 \<le> 11 * real j" by simp
  with pos have T0: "T \<noteq> 0" by linarith
  have rpos: "0 < remaining_hours s" using Suc.prems pos by simp
  from step_ok [OF rpos T0 day, of D] obtain s1 where
    st1: "multi_day_step D T s = Inr s1"
    and r1: "remaining_hours s1 = fsub (remaining_hours s) (min 11 (remaining_hours s))"
    and d1: "dt_day (current_date s1) = dt_day (current_date s) + 1"
    by blast
  have unfold: "multi_day_loop D T s = multi_day_loop D T s1"
    using rpos st1 by (rule loop_unfold)
  have "remaining_hours s1 = max 0 (T - 11 * real (Suc j))"
    unfolding r1 Suc.prems(2) using dbl small pos by (rule fsub_daily)
  then have r': "remaining_hours s1 = T - 11 * real (Suc j)"
    using pos' by (simp add: max_def)
  have day': "dt_day (current_date s1) = dt_day st + int (Suc j)"
    using d1 Suc.prems(3) by simp
  have le': "dt_day st + int (Suc j) \<le> max_ordinal" using day Suc.prems(3) by simp
  have "d = nat (max_ordinal - dt_day st - int (Suc j))" using Suc.hyps(2) by simp
  from Suc.hyps(1) [OF this le' r' day'] unfold show ?case by simp
qed

lemma loop_overflow_big:
  assumes "T \<noteq> 0"
  shows "1 \<le> dt_day (current_date s) \<Longrightarrow> dt_day (current_date s) \<le> max_ordinal \<Longrightarrow>
         real_of_int (11 * (max_ordinal - dt_day (current_date s)) + 12) \<le> remaining_hours s \<Longrightarrow>
         multi_day_loop D T s = Inl OverflowError"
proof (induction "nat (max_ordinal - dt_day (current_date s))" arbitrary: s)
  case 0
  then have last: "max_ordinal \<le> dt_day (current_date s)" by simp
  have "(0::real) < real_of_int (11 * (max_ordinal - dt_day (current_date s)) + 12)"
    using 0 by simp
  with 0 have rpos: "0 < remaining_hours s" by linarith
  from rpos step_overflow [OF rpos assms last, of D] show ?case by (rule loop_raise)
next
  case (Suc d)
  define k where "k = max_ordinal - dt_day (current_date s)"
  have k: "1 \<le> k" "k \<le> 3652058" using Suc unfolding k_def by (simp_all add: max_ordinal_def)
  have day: "dt_day (current_date s) < max_ordinal" using k unfolding k_def by simp
  have big: "real_of_int (11 * k + 12) \<le> remaining_hours s" using Suc.prems unfolding k_def by simp
  have "(23::real) \<le> real_of_int (11 * k + 12)" using k by simp
  with big have r11: "23 \<le> remaining_hours s" by linarith
  then have rpos: "0 < remaining_hours s" by simp
  from r11 have m: "min 11 (remaining_hours s) = 11" by (simp add: min_def)
  from step_ok [OF rpos assms day, of D] obtain s1 where
    st1: "multi_day_step D T s = Inr s1"
    and r1: "remaining_hours s1 = fsub (remaining_hours s) (min 11 (remaining_hours s))"
    and d1: "dt_day (current_date s1) = dt_day (current_date s) + 1"
    by blast
  have unfold: "multi_day_loop D T s = multi_day_loop D T s1"
    using rpos st1 by (rule loop_unfold)
  have "rd (real_of_int (11 * k + 1)) \<le> rd (remaining_hours s - 11)"
    using big k by (intro rd_mono_nonneg) simp_all
  moreover have "rd (real_of_int (11 * k + 1)) = real_of_int (11 * k + 1)"
    using k by (intro rd_of_int) simp
  ultimately have "real_of_int (11 * k + 1) \<le> remaining_hours s1"
    unfolding r1 m fsub_def by simp
  moreover have "11 * k + 1 = 11 * (max_ordinal - dt_day (current_date s1)) + 12"
    unfolding d1 k_def by simp
  ultimately have big': "real_of_int (11 * (max_ordinal - dt_day (current_date s1)) + 12)
      \<le> remaining_hours s1" by simp
  have a: "1 \<le> dt_day (current_date s1)" "dt_day (current_date s1) \<le> max_ordinal"
    using d1 day Suc.prems(1) by simp_all
  have "d = nat (max_ordinal - dt_day (current_date s1))" using Suc.hyps(2) d1 by simp
  from Suc.hyps(1) [OF this a big'] unfold show ?case by simp
qed

lemma small_total:
  assumes "valid_date st" and "dt_day st + \<lceil>T / 11\<rceil> \<le> max_ordinal"
  shows "(T::real) < 2 ^ 53"
proof -
  have "1 \<le> dt_day st" using assms(1) by (simp add: valid_date_def)
  with assms(2) have "\<lceil>T / 11\<rceil> \<le> 3652058" unfolding max_ordinal_def by linarith
  then have "T / 11 \<le> real_of_int 3652058" by (simp only: ceiling_le_iff)
  then have "T \<le> 40172638" by simp
  then show ?thesis by simp
qed

lemma loop_from_start:
  assumes "is_double T" and "0 < T" and "valid_date st"
    and "dt_day st + \<lceil>T / 11\<rceil> \<le> max_ordinal"
  shows "\<exists>s'. multi_day_loop D T (initial_state st D T) = Inr s' \<and>
              logs s' = map (nth_daily_log st D T) [0..<nat \<lceil>T / 11\<rceil>] \<and>
              remaining_hours s' = 0"
proof -
  have small: "T < 2 ^ 53" using assms(3,4) by (rule small_total)
  have "0 \<le> \<lceil>T / 11\<rceil>" using assms(2) by simp
  then have bound: "dt_day st + int (nat \<lceil>T / 11\<rceil>) \<le> max_ordinal" using assms(4) by simp
  have "remaining_hours (initial_state st D T) = max 0 (T - 11 * real 0)"
    using assms(2) by (simp add: initial_state_def)
  moreover have "dt_day (current_date (initial_state st D T)) = dt_day st + int 0"
    by (simp add: initial_state_def)
  moreover have "current_date (initial_state st D T) = nth_date st 0"
    by (simp add: initial_state_def nth_date_def)
  ultimately have "\<exists>s'. multi_day_loop D T (initial_state st D T) = Inr s' \<and>
      logs s' = logs (initial_state st D T) @ map (nth_daily_log st D T) [0..<nat \<lceil>T / 11\<rceil>] \<and>
      remaining_hours s' = 0"
    by (intro loop_closed [OF refl assms(1) small bound]) simp_all
  then show ?thesis by (simp add: initial_state_def)
qed

lemma generate_initial:
  "generate_multi_day_logs st D T p d =
     (case multi_day_loop D T (initial_state st D T) of Inl e \<Rightarrow> Inl e | Inr s \<Rightarrow> Inr (logs s))"
  by (simp add: generate_multi_day_logs_def initial_state_def)

lemma multi_day_closed:
  assumes "is_double T" and "0 < T" and "valid_date st"
    and "dt_day st + \<lceil>T / 11\<rceil> \<le> max_ordinal"
  shows "generate_multi_day_logs st D T p d = Inr (map (nth_daily_log st D T) [0..<nat \<lceil>T / 11\<rceil>])"
proof -
  from loop_from_start [OF assms, of D] obtain s' where
    "multi_day_loop D T (initial_state st D T) = Inr s'"
    "logs s' = map (nth_daily_log st D T) [0..<nat \<lceil>T / 11\<rceil>]" by blast
  then show ?thesis by (simp add: generate_initial)
qed

lemma multi_day_overflow:
  assumes "is_double T" and "0 < T" and "valid_date st"
    and "max_ordinal < dt_day st + \<lceil>T / 11\<rceil>"
  shows "generate_multi_day_logs st D T p d = Inl OverflowError"
proof (cases "T < 2 ^ 53")
  case True
  have "0 \<le> \<lceil>T / 11\<rceil>" using assms(2) by simp
  then have bound: "max_ordinal < dt_day st + int (nat \<lceil>T / 11\<rceil>)" using assms(4) by simp
  have "dt_day st + int 0 \<le> max_ordinal" using assms(3) by (simp add: valid_date_def)
  moreover have "remaining_hours (initial_state st D T) = T - 11 * real 0"
    by (simp add: initial_state_def)
  moreover have "dt_day (current_date (initial_state st D T)) = dt_day st + int 0"
    by (simp add: initial_state_def)
  ultimately have "multi_day_loop D T (initial_state st D T) = Inl OverflowError"
    by (rule loop_overflow_exact [OF refl assms(1) True bound])
  then show ?thesis by (simp add: generate_initial)
next
  case False
  have T0: "T \<noteq> 0" using assms(2) by simp
  have d: "1 \<le> dt_day st" "dt_day st \<le> max_ordinal" using assms(3) by (simp_all add: valid_date_def)
  then have "11 * (max_ordinal - dt_day st) + 12 \<le> 40172650" by (simp add: max_ordinal_def)
  then have "real_of_int (11 * (max_ordinal - dt_day st) + 12) \<le> real_of_int 40172650"
    by (simp only: of_int_le_iff)
  also have "\<dots> \<le> 2 ^ 53" by simp
  also have "\<dots> \<le> T" using False by simp
  finally have "real_of_int (11 * (max_ordinal - dt_day (current_date (initial_state st D T))) + 12)
      \<le> remaining_hours (initial_state st D T)"
    by (simp add: initial_state_def)
  moreover have "1 \<le> dt_day (current_date (initial_state st D T))"
    "dt_day (current_date (initial_state st D T)) \<le> max_ordinal"
    using d by (simp_all add: initial_state_def)
  ultimately have "multi_day_loop D T (initial_state st D T) = Inl OverflowError"
    by (intro loop_overflow_big [OF T0])
  then show ?thesis by (simp add: generate_initial)
qed

lemma multi_day_nonpositive:
  assumes "T \<le> 0"
  shows "generate_multi_day_logs st D T p d = Inr []"
  using assms by (simp add: generate_multi_day_logs_def multi_day_loop.simps)

lemma nth_log_fields:
  "driving_time (nth_daily_log st D T k) = py_int (fmul (nth_daily_hours T k) 60)"
  "on_duty_time (nth_daily_log st D T k) = py_int (fmul (nth_daily_hours T k) 60) + 120"
  "off_duty_time (nth_daily_log st D T k) = 1440 - (py_int (fmul (nth_daily_hours T k) 60) + 120)"
  "sleeper_berth_time (nth_daily_log st D T k) = 0"
  "time_entries (nth_daily_log st D T k) =
     time_entries (log_for_trip (nth_date st k) (nth_daily_distance D T k) (nth_daily_hours T k))"
  "date (nth_daily_log st D T k) = nth_date st k"
  "daily_miles (nth_daily_log st D T k) = round2 (nth_daily_distance D T k)"
  by (simp_all add: nth_daily_log_def eld_log.defs daily_log.defs log_fields)

lemma nth_hours_bounds:
  assumes "k < nat \<lceil>T / 11\<rceil>"
  shows "0 < nth_daily_hours T k \<and> nth_daily_hours T k \<le> 11"
  using days_below [OF refl, of k T] assms by (simp add: nth_daily_hours_def)

lemma nth_hours_sum_from:
  assumes n: "n = nat \<lceil>T / 11\<rceil>"
  shows "j \<le> n \<Longrightarrow> sum_list (map (nth_daily_hours T) [j..<n]) = max 0 (T - 11 * real j)"
proof (induction "n - j" arbitrary: j)
  case 0
  then have "j = n" by simp
  then have "\<not> 11 * real j < T" using days_below [OF n, of j] by simp
  with \<open>j = n\<close> show ?case by (simp add: max_def)
next
  case (Suc d)
  then have lt: "j < n" by simp
  then have pos: "11 * real j < T" using days_below [OF n, of j] by simp
  from Suc.hyps lt have "d = n - Suc j" "Suc j \<le> n" by simp_all
  from Suc.hyps(1) [OF this]
  have "sum_list (map (nth_daily_hours T) [Suc j..<n]) = max 0 (T - 11 * real (Suc j))" .
  with lt pos show ?case
    by (simp add: upt_conv_Cons nth_daily_hours_def min_def max_def)
qed

lemma nth_hours_sum:
  assumes "0 < T"
  shows "sum_list (map (nth_daily_hours T) [0..<nat \<lceil>T / 11\<rceil>]) = T"
  using nth_hours_sum_from [OF refl, of 0 T] assms by simp

section \<open>Daily hours and miles of the multi-day logs\<close>

lemma is_double_25: "is_double 25"
  using is_double_int [of 25] by simp

lemma is_double_5: "is_double 5"
  using is_double_int [of 5] by simp

lemma valid_start_0800: "valid_date start_0800"
  by (simp add: valid_date_def start_0800_def max_ordinal_def)

lemma valid_last_day: "valid_date last_day_0800"
  by (simp add: valid_date_def last_day_0800_def max_ordinal_def)

lemma days_25: "[0..<nat \<lceil>(25::real) / 11\<rceil>] = [0, 1, 2]"
  by (simp add: upt_conv_Cons)

lemma hours_25:
  "nth_daily_hours 25 0 = 11" "nth_daily_hours 25 1 = 11" "nth_daily_hours 25 2 = 3"
  by (simp_all add: nth_daily_hours_def)

lemma fdiv_11_25: "fdiv 11 25 = 7926335344172073 / 2 ^ 54"
  using rd_eval [of "-2" "11 / 25"] by (simp add: fdiv_def round_half_even_def)

lemma fmul_11_25_1500: "fmul (7926335344172073 / 2 ^ 54) 1500 = 660"
  using rd_eval [of 9 "7926335344172073 / 2 ^ 54 * 1500"]
  by (simp add: fmul_def round_half_even_def)

lemma fdiv_3_25: "fdiv 3 25 = 8646911284551352 / 2 ^ 56"
  using rd_eval [of "-4" "3 / 25"] by (simp add: fdiv_def round_half_even_def)

lemma fmul_3_25_1500: "fmul (8646911284551352 / 2 ^ 56) 1500 = 180"
  using rd_eval [of 7 "8646911284551352 / 2 ^ 56 * 1500"]
  by (simp add: fmul_def round_half_even_def)

lemma round2_int: "round2 660 = 660" "round2 180 = 180"
  by (simp_all add: round2_def round_half_even_def rd_numeral)

lemma miles_25:
  "nth_daily_distance 1500 25 0 = 660" "nth_daily_distance 1500 25 1 = 660"
  "nth_daily_distance 1500 25 2 = 180"
  by (simp_all only: nth_daily_distance_def hours_25 fdiv_11_25 fmul_11_25_1500
      fdiv_3_25 fmul_3_25_1500)

lemma dates_25:
  "nth_date start_0800 0 = \<lparr>dt_day = 739923, dt_hour = 8\<rparr>"
  "nth_date start_0800 1 = \<lparr>dt_day = 739924, dt_hour = 18\<rparr>"
  "nth_date start_0800 2 = \<lparr>dt_day = 739925, dt_hour = 4\<rparr>"
  by (simp_all add: nth_date_def start_0800_def)

lemma is_double_664_60: "is_double double_664_60"
proof -
  have "is_double (of_int 3114989742264593 * 2 powi (- 48))"
    by (intro is_double_dyadic) simp_all
  then show ?thesis by (simp add: double_664_60_def power_int_minus)
qed

lemma fdiv_11_664_60: "fdiv 11 double_664_60 = 8952939018266649 / 2 ^ 53"
  using rd_eval [of "-1" "11 / double_664_60"]
  by (simp add: fdiv_def double_664_60_def round_half_even_def)

lemma fmul_103_75: "fmul (8952939018266649 / 2 ^ 53) 103.75 = 103.125"
  using rd_eval [of 6 "8952939018266649 / 2 ^ 53 * 103.75"]
  by (simp add: fmul_def round_half_even_def)

lemma round2_103_125: "round2 103.125 = 7256424899600712 / 2 ^ 46"
  using rd_eval [of 6 "10312 / 100"]
  by (simp add: round2_def round_half_even_def)

lemma step_remaining_exact:
  assumes "is_double r" and "0 < r" and "r < 2 ^ 53"
  shows "fsub r (min 11 r) = r - min 11 r"
proof -
  have "11 * real 0 < r" using assms(2) by simp
  from fsub_daily [OF assms(1,3) this]
  have "fsub r (min 11 r) = max 0 (r - 11)" by simp
  then show ?thesis by (simp add: min_def max_def)
qed

lemma fsub_absorbed: "fsub (2 ^ 60) (min 11 (2 ^ 60)) = 2 ^ 60"
  using rd_eval [of 59 "2 ^ 60 - 11"]
  by (simp add: fsub_def round_half_even_def)

text \<open>
  C6, as stated, fails: it promises three logs for 25 total driving hours whatever
  the start time, but from a start on the last day of the calendar no list is
  returned; advancing the date after the first day raises \<^verbatim>\<open>OverflowError\<close>.
\<close>

theorem multi_day_partition_counterexample:
  "valid_date last_day_0800 \<and> is_double 25 \<and>
   generate_multi_day_logs last_day_0800 1500 25 ''Austin'' ''Denver'' = Inl OverflowError"
proof -
  have "max_ordinal < dt_day last_day_0800 + \<lceil>(25::real) / 11\<rceil>"
    by (simp add: last_day_0800_def max_ordinal_def)
  with is_double_25 valid_last_day
  have "generate_multi_day_logs last_day_0800 1500 25 ''Austin'' ''Denver'' = Inl OverflowError"
    by (intro multi_day_overflow) simp_all
  with valid_last_day is_double_25 show ?thesis by blast
qed

text \<open>
  C6, amended.  Let the total driving hours \<open>T\<close> be a positive double and let the
  start date be valid with \<open>ceiling (T / 11)\<close> further days left in the calendar.  Then
  the logs returned are, day by day, those of \<open>nth_daily_log\<close>: day \<open>k\<close> (counted from
  0) drives \<open>min 11 (T - 11 k)\<close> hours, the minimum of 11 and the hours remaining
  before that day, which the float subtraction tracks exactly; each day drives more
  than 0 and at most 11 hours, and the daily hours sum to \<open>T\<close>.  The driving time of
  day \<open>k\<close> is the float product of its hours and 60, truncated, and its miles are
  \<^verbatim>\<open>round(daily / T * D, 2)\<close> in float arithmetic, with \<open>T\<close> and \<open>D\<close> the original totals
  on every day.  Every pass of the loop body, from any state, consumes
  \<open>min 11 remaining_hours\<close> by float subtraction and appends the log of that many
  hours with the distance \<open>daily / T * D\<close>; the logs it produces do not depend on the
  remaining distance.
\<close>

theorem multi_day_partition:
  assumes "is_double total_driving_hours" and "0 < total_driving_hours"
    and "valid_date start_time"
    and "dt_day start_time + \<lceil>total_driving_hours / 11\<rceil> \<le> max_ordinal"
  shows "generate_multi_day_logs start_time total_distance total_driving_hours
           pickup_location dropoff_location =
           Inr (map (nth_daily_log start_time total_distance total_driving_hours)
                  [0..<nat \<lceil>total_driving_hours / 11\<rceil>]) \<and>
         list_all (\<lambda>k. 0 < nth_daily_hours total_driving_hours k \<and>
                       nth_daily_hours total_driving_hours k \<le> 11)
           [0..<nat \<lceil>total_driving_hours / 11\<rceil>] \<and>
         sum_list (map (nth_daily_hours total_driving_hours)
           [0..<nat \<lceil>total_driving_hours / 11\<rceil>]) = total_driving_hours \<and>
         (\<forall>k. driving_time (nth_daily_log start_time total_distance total_driving_hours k) =
                py_int (fmul (min 11 (total_driving_hours - 11 * real k)) 60) \<and>
              daily_miles (nth_daily_log start_time total_distance total_driving_hours k) =
                round2 (fmul (fdiv (min 11 (total_driving_hours - 11 * real k))
                                total_driving_hours) total_distance)) \<and>
         (\<forall>s s'. 0 < remaining_hours s \<longrightarrow>
            multi_day_step total_distance total_driving_hours s = Inr s' \<longrightarrow>
            remaining_hours s' = fsub (remaining_hours s) (min 11 (remaining_hours s)) \<and>
            logs s' = logs s @
              [eld_log.extend
                 (log_for_trip (current_date s)
                    (fmul (fdiv (min 11 (remaining_hours s)) total_driving_hours) total_distance)
                    (min 11 (remaining_hours s)))
                 (daily_log.fields (current_date s)
                    (round2 (fmul (fdiv (min 11 (remaining_hours s)) total_driving_hours)
                       total_distance)))]) \<and>
         (\<forall>s x. map_sum id logs
                  (multi_day_step total_distance total_driving_hours (s\<lparr>remaining_distance := x\<rparr>)) =
                map_sum id logs (multi_day_step total_distance total_driving_hours s))"
proof -
  have a: "list_all (\<lambda>k. 0 < nth_daily_hours total_driving_hours k \<and>
                       nth_daily_hours total_driving_hours k \<le> 11)
           [0..<nat \<lceil>total_driving_hours / 11\<rceil>]"
    using nth_hours_bounds [of _ total_driving_hours] by (simp add: list_all_iff)
  have b: "\<forall>k. driving_time (nth_daily_log start_time total_distance total_driving_hours k) =
                py_int (fmul (min 11 (total_driving_hours - 11 * real k)) 60) \<and>
              daily_miles (nth_daily_log start_time total_distance total_driving_hours k) =
                round2 (fmul (fdiv (min 11 (total_driving_hours - 11 * real k))
                                total_driving_hours) total_distance)"
    by (simp add: nth_log_fields nth_daily_distance_def nth_daily_hours_def)
  have c: "\<forall>s s'. 0 < remaining_hours s \<longrightarrow>
            multi_day_step total_distance total_driving_hours s = Inr s' \<longrightarrow>
            remaining_hours s' = fsub (remaining_hours s) (min 11 (remaining_hours s)) \<and>
            logs s' = logs s @
              [eld_log.extend
                 (log_for_trip (current_date s)
                    (fmul (fdiv (min 11 (remaining_hours s)) total_driving_hours) total_distance)
                    (min 11 (remaining_hours s)))
                 (daily_log.fields (current_date s)
                    (round2 (fmul (fdiv (min 11 (remaining_hours s)) total_driving_hours)
                       total_distance)))]"
    using step_cases [of total_distance total_driving_hours] by blast
  have d: "\<forall>s x. map_sum id logs
                  (multi_day_step total_distance total_driving_hours (s\<lparr>remaining_distance := x\<rparr>)) =
                map_sum id logs (multi_day_step total_distance total_driving_hours s)"
    by (simp only: step_remaining_distance) simp
  from multi_day_closed [OF assms] nth_hours_sum [OF assms(2)] a b c d show ?thesis by blast
qed

text \<open>
  For 25 driving hours over 1500 miles: three logs, with 11, 11 and 3 driving hours
  (660, 660 and 180 minutes; 660, 660 and 180 miles), starting at hours 8, 18 and 4 of
  consecutive days.  For 103.75 miles over the double nearest to \<open>664 / 60\<close> hours,
  the first day's distance is the double \<open>103.125\<close> and its miles are the double
  nearest to \<open>103.12\<close>.
\<close>

theorem multi_day_partition_witness:
  "is_double 25 \<and> (0::real) < 25 \<and> valid_date start_0800 \<and>
   dt_day start_0800 + \<lceil>(25::real) / 11\<rceil> \<le> max_ordinal \<and>
   generate_multi_day_logs start_0800 1500 25 ''Austin'' ''Denver'' =
     Inr [nth_daily_log start_0800 1500 25 0, nth_daily_log start_0800 1500 25 1,
          nth_daily_log start_0800 1500 25 2] \<and>
   map (nth_daily_hours 25) [0, 1, 2] = [11, 11, 3] \<and>
   sum_list (map (nth_daily_hours 25) [0, 1, 2]) = 25 \<and>
   map driving_time [nth_daily_log start_0800 1500 25 0, nth_daily_log start_0800 1500 25 1,
          nth_daily_log start_0800 1500 25 2] = [660, 660, 180] \<and>
   map daily_miles [nth_daily_log start_0800 1500 25 0, nth_daily_log start_0800 1500 25 1,
          nth_daily_log start_0800 1500 25 2] = [660, 660, 180] \<and>
   map date [nth_daily_log start_0800 1500 25 0, nth_daily_log start_0800 1500 25 1,
          nth_daily_log start_0800 1500 25 2] =
     [\<lparr>dt_day = 739923, dt_hour = 8\<rparr>, \<lparr>dt_day = 739924, dt_hour = 18\<rparr>,
      \<lparr>dt_day = 739925, dt_hour = 4\<rparr>] \<and>
   daily_miles (nth_daily_log start_0800 103.75 double_664_60 0) = 7256424899600712 / 2 ^ 46"
proof -
  have p: "(0::real) < 25" by simp
  have q: "dt_day start_0800 + \<lceil>(25::real) / 11\<rceil> \<le> max_ordinal"
    by (simp add: start_0800_def max_ordinal_def)
  from multi_day_partition [OF is_double_25 p valid_start_0800 q, of 1500 "''Austin''" "''Denver''"]
  have g: "generate_multi_day_logs start_0800 1500 25 ''Austin'' ''Denver'' =
      Inr (map (nth_daily_log start_0800 1500 25) [0..<nat \<lceil>(25::real) / 11\<rceil>])"
    and s: "sum_list (map (nth_daily_hours 25) [0..<nat \<lceil>(25::real) / 11\<rceil>]) = 25"
    by blast+
  from g have g': "generate_multi_day_logs start_0800 1500 25 ''Austin'' ''Denver'' =
     Inr [nth_daily_log start_0800 1500 25 0, nth_daily_log start_0800 1500 25 1,
          nth_daily_log start_0800 1500 25 2]"
    by (simp only: days_25) simp
  from s have s': "sum_list (map (nth_daily_hours 25) [0, 1, 2]) = 25"
    by (simp only: days_25)
  have h: "map (nth_daily_hours 25) [0, 1, 2] = [11, 11, 3]"
    by (simp only: list.map hours_25)
  have t: "map driving_time [nth_daily_log start_0800 1500 25 0,
      nth_daily_log start_0800 1500 25 1, nth_daily_log start_0800 1500 25 2] = [660, 660, 180]"
    by (simp only: list.map nth_log_fields hours_25 fmul_numeral) (simp add: py_int_def)
  have m: "map daily_miles [nth_daily_log start_0800 1500 25 0,
      nth_daily_log start_0800 1500 25 1, nth_daily_log start_0800 1500 25 2] = [660, 660, 180]"
    by (simp only: list.map nth_log_fields miles_25 round2_int)
  have d: "map date [nth_daily_log start_0800 1500 25 0, nth_daily_log start_0800 1500 25 1,
          nth_daily_log start_0800 1500 25 2] =
     [\<lparr>dt_day = 739923, dt_hour = 8\<rparr>, \<lparr>dt_day = 739924, dt_hour = 18\<rparr>,
      \<lparr>dt_day = 739925, dt_hour = 4\<rparr>]"
    by (simp only: list.map nth_log_fields dates_25)
  have "11 < double_664_60" by (simp add: double_664_60_def)
  then have "nth_daily_hours double_664_60 0 = 11" by (simp add: nth_daily_hours_def)
  then have "nth_daily_distance 103.75 double_664_60 0 = 103.125"
    by (simp only: nth_daily_distance_def fdiv_11_664_60 fmul_103_75)
  then have e: "daily_miles (nth_daily_log start_0800 103.75 double_664_60 0) =
      7256424899600712 / 2 ^ 46"
    by (simp only: nth_log_fields round2_103_125)
  from is_double_25 p valid_start_0800 q g' h s' t m d e show ?thesis by blast
qed

text \<open>
  C8, as stated, fails: 5 total driving hours call for one daily log, but from a start
  on the last day of the calendar the loop ends in \<^verbatim>\<open>OverflowError\<close> and no log is
  produced.  Nor do the remaining hours decrease on every pass for every positive
  total: \<open>2 ^ 60\<close> less 11 is \<open>2 ^ 60\<close> again in float arithmetic.
\<close>

theorem multi_day_terminates_counterexample:
  "valid_date last_day_0800 \<and> is_double 5 \<and> \<lceil>(5::real) / 11\<rceil> = 1 \<and>
   generate_multi_day_logs last_day_0800 300 5 ''Austin'' ''Denver'' = Inl OverflowError \<and>
   fsub (2 ^ 60) (min 11 (2 ^ 60)) = 2 ^ 60"
proof -
  have c: "\<lceil>(5::real) / 11\<rceil> = 1" by simp
  then have "max_ordinal < dt_day last_day_0800 + \<lceil>(5::real) / 11\<rceil>"
    by (simp add: last_day_0800_def max_ordinal_def)
  with is_double_5 valid_last_day
  have "generate_multi_day_logs last_day_0800 300 5 ''Austin'' ''Denver'' = Inl OverflowError"
    by (intro multi_day_overflow) simp_all
  with valid_last_day is_double_5 c fsub_absorbed show ?thesis by blast
qed

text \<open>
  C8, amended.  The loop always ends: every pass that does not raise advances the
  date by one day, and the calendar is bounded (this is the termination proof of
  \<open>multi_day_loop\<close>).  For a positive double \<open>T\<close> of total driving hours and a valid
  start date: if \<open>ceiling (T / 11)\<close> further days are left in the calendar the loop
  returns with the remaining hours exactly 0 and exactly \<open>ceiling (T / 11)\<close> logs;
  otherwise \<^verbatim>\<open>generate_multi_day_logs\<close> raises \<^verbatim>\<open>OverflowError\<close>.  On a pass that
  starts from a double below \<open>2 ^ 53\<close> the remaining hours decrease by exactly
  \<open>min 11 remaining_hours > 0\<close> and stay non-negative.
\<close>

theorem multi_day_terminates:
  assumes "is_double total_driving_hours" and "0 < total_driving_hours"
    and "valid_date start_time"
  shows "(dt_day start_time + \<lceil>total_driving_hours / 11\<rceil> \<le> max_ordinal \<longrightarrow>
            (\<exists>s'. multi_day_loop total_distance total_driving_hours
                     (initial_state start_time total_distance total_driving_hours) = Inr s' \<and>
                  remaining_hours s' = 0 \<and>
                  int (length (logs s')) = \<lceil>total_driving_hours / 11\<rceil> \<and>
                  generate_multi_day_logs start_time total_distance total_driving_hours
                    pickup_location dropoff_location = Inr (logs s'))) \<and>
         (max_ordinal < dt_day start_time + \<lceil>total_driving_hours / 11\<rceil> \<longrightarrow>
            generate_multi_day_logs start_time total_distance total_driving_hours
              pickup_location dropoff_location = Inl OverflowError) \<and>
         (\<forall>s s'. is_double (remaining_hours s) \<longrightarrow> 0 < remaining_hours s \<longrightarrow>
            remaining_hours s < 2 ^ 53 \<longrightarrow>
            multi_day_step total_distance total_driving_hours s = Inr s' \<longrightarrow>
            0 < min 11 (remaining_hours s) \<and>
            remaining_hours s' = remaining_hours s - min 11 (remaining_hours s) \<and>
            remaining_hours s' < remaining_hours s \<and> 0 \<le> remaining_hours s')"
proof -
  have a: "dt_day start_time + \<lceil>total_driving_hours / 11\<rceil> \<le> max_ordinal \<longrightarrow>
            (\<exists>s'. multi_day_loop total_distance total_driving_hours
                     (initial_state start_time total_distance total_driving_hours) = Inr s' \<and>
                  remaining_hours s' = 0 \<and>
                  int (length (logs s')) = \<lceil>total_driving_hours / 11\<rceil> \<and>
                  generate_multi_day_logs start_time total_distance total_driving_hours
                    pickup_location dropoff_location = Inr (logs s'))"
  proof
    assume b: "dt_day start_time + \<lceil>total_driving_hours / 11\<rceil> \<le> max_ordinal"
    from loop_from_start [OF assms b, of total_distance] obtain s' where
      l: "multi_day_loop total_distance total_driving_hours
           (initial_state start_time total_distance total_driving_hours) = Inr s'"
      and m: "logs s' = map (nth_daily_log start_time total_distance total_driving_hours)
           [0..<nat \<lceil>total_driving_hours / 11\<rceil>]"
      and r: "remaining_hours s' = 0" by blast
    have "0 \<le> \<lceil>total_driving_hours / 11\<rceil>" using assms(2) by simp
    then have n: "int (length (logs s')) = \<lceil>total_driving_hours / 11\<rceil>" by (simp add: m)
    have "generate_multi_day_logs start_time total_distance total_driving_hours
        pickup_location dropoff_location = Inr (logs s')"
      by (simp add: generate_initial l)
    with l r n show "\<exists>s'. multi_day_loop total_distance total_driving_hours
                     (initial_state start_time total_distance total_driving_hours) = Inr s' \<and>
                  remaining_hours s' = 0 \<and>
                  int (length (logs s')) = \<lceil>total_driving_hours / 11\<rceil> \<and>
                  generate_multi_day_logs start_time total_distance total_driving_hours
                    pickup_location dropoff_location = Inr (logs s')" by blast
  qed
  have b: "max_ordinal < dt_day start_time + \<lceil>total_driving_hours / 11\<rceil> \<longrightarrow>
            generate_multi_day_logs start_time total_distance total_driving_hours
              pickup_location dropoff_location = Inl OverflowError"
    using multi_day_overflow [OF assms] by blast
  have c: "0 < min 11 (remaining_hours s) \<and>
      remaining_hours s' = remaining_hours s - min 11 (remaining_hours s) \<and>
      remaining_hours s' < remaining_hours s \<and> 0 \<le> remaining_hours s'"
    if "is_double (remaining_hours s)" "0 < remaining_hours s" "remaining_hours s < 2 ^ 53"
      "multi_day_step total_distance total_driving_hours s = Inr s'" for s s'
  proof -
    from step_cases [OF that(4,2)]
    have "remaining_hours s' = fsub (remaining_hours s) (min 11 (remaining_hours s))" by blast
    then have "remaining_hours s' = remaining_hours s - min 11 (remaining_hours s)"
      by (simp only: step_remaining_exact [OF that(1,2,3)])
    then show ?thesis using that(2) by (simp add: min_def)
  qed
  from a b c show ?thesis by blast
qed

text \<open>
  For 25 driving hours from hour 8 of 2026-11-03 the loop returns three logs.
\<close>

theorem multi_day_terminates_witness:
  "is_double 25 \<and> (0::real) < 25 \<and> valid_date start_0800 \<and>
   dt_day start_0800 + \<lceil>(25::real) / 11\<rceil> \<le> max_ordinal \<and>
   (\<exists>s'. multi_day_loop 1500 25 (initial_state start_0800 1500 25) = Inr s' \<and>
      remaining_hours s' = 0 \<and> length (logs s') = 3 \<and>
      generate_multi_day_logs start_0800 1500 25 ''Austin'' ''Denver'' = Inr (logs s'))"
proof -
  have p: "(0::real) < 25" by simp
  have q: "dt_day start_0800 + \<lceil>(25::real) / 11\<rceil> \<le> max_ordinal"
    by (simp add: start_0800_def max_ordinal_def)
  have c: "\<lceil>(25::real) / 11\<rceil> = 3" by simp
  from multi_day_terminates [OF is_double_25 p valid_start_0800,
      of 1500 "''Austin''" "''Denver''"] q
  obtain s' where "multi_day_loop 1500 25 (initial_state start_0800 1500 25) = Inr s'"
    "remaining_hours s' = 0" "int (length (logs s')) = \<lceil>(25::real) / 11\<rceil>"
    "generate_multi_day_logs start_0800 1500 25 ''Austin'' ''Denver'' = Inr (logs s')"
    by blast
  then have "multi_day_loop 1500 25 (initial_state start_0800 1500 25) = Inr s' \<and>
      remaining_hours s' = 0 \<and> length (logs s') = 3 \<and>
      generate_multi_day_logs start_0800 1500 25 ''Austin'' ''Denver'' = Inr (logs s')"
    unfolding c by simp
  then have "\<exists>s'. multi_day_loop 1500 25 (initial_state start_0800 1500 25) = Inr s' \<and>
      remaining_hours s' = 0 \<and> length (logs s') = 3 \<and>
      generate_multi_day_logs start_0800 1500 25 ''Austin'' ''Denver'' = Inr (logs s')"
    by blast
  with is_double_25 p valid_start_0800 q show ?thesis by blast
qed

section \<open>Ranges of the fields of the logs\<close>

lemma entries_hours_in_range: "hours_in_range (time_entries (log_for_trip st d dh))"
proof -
  have "0 \<le> h \<and> h \<le> 23" if "h \<in> set (py_range 24)" for h
    using that by (simp add: set_py_range)
  then show ?thesis by (simp add: hours_in_range_def log_entries list_all_iff)
qed

lemma daily_minutes_bounds:
  assumes "0 < r"
  shows "0 \<le> py_int (fmul (min 11 r) 60) \<and> py_int (fmul (min 11 r) 60) \<le> 660"
proof -
  have nn: "0 \<le> fmul (min 11 r) 60" using assms by (simp add: fmul_nonneg)
  have "0 \<le> min 11 r * 60" using assms by simp
  moreover have "min 11 r * 60 \<le> 660" by (simp add: min_def)
  ultimately have "rd (min 11 r * 60) \<le> rd 660" by (rule rd_mono_nonneg)
  then have "fmul (min 11 r) 60 \<le> 660" by (simp add: fmul_def rd_numeral)
  then have "\<lfloor>fmul (min 11 r) 60\<rfloor> \<le> 660" by (simp add: floor_le_iff)
  with nn show ?thesis by (simp add: py_int_def)
qed

lemma daily_log_ok_step:
  assumes "0 < r" and "0 \<le> dt_hour t" and "dt_hour t \<le> 23"
  shows "daily_log_ok (eld_log.extend (log_for_trip t dd (min 11 r)) (daily_log.fields t m))"
  using daily_minutes_bounds [OF assms(1)] assms(2,3)
  by (simp add: daily_log_ok_def eld_log.defs daily_log.defs log_fields entries_hours_in_range)

lemma loop_invariant:
  "list_all daily_log_ok (logs s) \<Longrightarrow> 0 \<le> dt_hour (current_date s) \<Longrightarrow>
   dt_hour (current_date s) \<le> 23 \<Longrightarrow> multi_day_loop D T s = Inr s' \<Longrightarrow>
   list_all daily_log_ok (logs s')"
proof (induction D T s rule: multi_day_loop.induct)
  case (1 D T s)
  show ?case
  proof (cases "0 < remaining_hours s")
    case False
    with "1.prems"(4) have "s' = s" by (simp add: multi_day_loop.simps)
    with "1.prems"(1) show ?thesis by simp
  next
    case True
    show ?thesis
    proof (cases "multi_day_step D T s")
      case (Inl e)
      with True have "multi_day_loop D T s = Inl e" by (rule loop_raise)
      with "1.prems"(4) show ?thesis by simp
    next
      case (Inr s1)
      with True have u: "multi_day_loop D T s = multi_day_loop D T s1" by (rule loop_unfold)
      from step_cases [OF Inr True]
      have l: "logs s1 = logs s @
         [eld_log.extend
            (log_for_trip (current_date s)
               (fmul (fdiv (min 11 (remaining_hours s)) T) D) (min 11 (remaining_hours s)))
            (daily_log.fields (current_date s)
               (round2 (fmul (fdiv (min 11 (remaining_hours s)) T) D)))]"
        and h: "dt_hour (current_date s1) =
         (if 0 < fsub (remaining_hours s) (min 11 (remaining_hours s))
          then (dt_hour (current_date s) + 10) mod 24 else dt_hour (current_date s))"
        by blast+
      have a: "list_all daily_log_ok (logs s1)"
        unfolding l using "1.prems"(1) daily_log_ok_step [OF True "1.prems"(2,3)] by simp
      have "(dt_hour (current_date s) + 10) mod 24 < 24" by simp
      then have "(dt_hour (current_date s) + 10) mod 24 \<le> 23" by linarith
      then have b: "0 \<le> dt_hour (current_date s1)" "dt_hour (current_date s1) \<le> 23"
        unfolding h using "1.prems"(2,3) by simp_all
      from "1.prems"(4) u have "multi_day_loop D T s1 = Inr s'" by simp
      from "1.IH" [OF True Inr a b this] show ?thesis .
    qed
  qed
qed

lemma multi_day_logs_ok:
  assumes "0 \<le> dt_hour st" and "dt_hour st \<le> 23"
    and "generate_multi_day_logs st D T p d = Inr ls"
  shows "list_all daily_log_ok ls"
proof -
  from assms(3) obtain s' where l: "multi_day_loop D T (initial_state st D T) = Inr s'"
    and ls: "ls = logs s'"
    by (auto simp: generate_initial split: sum.splits)
  have "list_all daily_log_ok (logs (initial_state st D T))" by (simp add: initial_state_def)
  moreover have "0 \<le> dt_hour (current_date (initial_state st D T))"
    "dt_hour (current_date (initial_state st D T)) \<le> 23"
    using assms(1,2) by (simp_all add: initial_state_def)
  ultimately have "list_all daily_log_ok (logs s')" using l by (rule loop_invariant)
  then show ?thesis by (simp only: ls)
qed

text \<open>
  C9, as stated, fails: a start at hour 20 with 23 driving hours is well-formed, and
  the returned log has an off-duty time of \<open>-60\<close> minutes.
\<close>

theorem log_fields_in_range_counterexample:
  "0 \<le> dt_hour start_2000 \<and> dt_hour start_2000 \<le> 23 \<and> (0::real) \<le> 23 \<and>
   generate_log_for_trip start_2000 1000 23 = Inr (log_for_trip start_2000 1000 23) \<and>
   off_duty_time (log_for_trip start_2000 1000 23) = - 60"
proof -
  have "generate_log_for_trip start_2000 1000 23 = Inr (log_for_trip start_2000 1000 23)"
    by (rule generate_log_returns) simp_all
  moreover have "off_duty_time (log_for_trip start_2000 1000 23) = - 60"
    by (simp add: log_fields fmul_numeral py_int_def)
  ultimately show ?thesis by (simp add: start_2000_def)
qed

text \<open>
  C9, amended.  For a start hour in \<open>[0, 23]\<close> and non-negative driving hours, a log
  returned by \<^verbatim>\<open>generate_log_for_trip\<close> has non-negative driving and on-duty times,
  sleeper-berth time 0 and entry hours in \<open>[0, 23]\<close>; its off-duty time is
  non-negative exactly when the driving time is at most 1320 minutes, that is when the
  float product of the driving hours and 60 is below 1321, which holds for up to 22
  driving hours.  Every log of a list returned by \<^verbatim>\<open>generate_multi_day_logs\<close>, whatever
  the totals, has all four minute fields non-negative, entry hours in \<open>[0, 23]\<close> and a
  date hour in \<open>[0, 23]\<close>.
\<close>

theorem log_fields_in_range:
  assumes "0 \<le> dt_hour start_time" and "dt_hour start_time \<le> 23" and "0 \<le> driving_hours"
  shows "(\<forall>L. generate_log_for_trip start_time distance_miles driving_hours = Inr L \<longrightarrow>
            0 \<le> driving_time L \<and> 0 \<le> on_duty_time L \<and> sleeper_berth_time L = 0 \<and>
            hours_in_range (time_entries L) \<and>
            (0 \<le> off_duty_time L \<longleftrightarrow> driving_time L \<le> 1320) \<and>
            (0 \<le> off_duty_time L \<longleftrightarrow> fmul driving_hours 60 < 1321) \<and>
            (driving_hours \<le> 22 \<longrightarrow> 0 \<le> off_duty_time L)) \<and>
         (\<forall>ls. generate_multi_day_logs start_time total_distance total_driving_hours
                  pickup_location dropoff_location = Inr ls \<longrightarrow>
               list_all daily_log_ok ls)"
proof -
  let ?L = "log_for_trip start_time distance_miles driving_hours"
  have nn: "0 \<le> fmul driving_hours 60" using assms(3) by (simp add: fmul_nonneg)
  then have t: "driving_time ?L = \<lfloor>fmul driving_hours 60\<rfloor>"
    by (simp add: log_fields py_int_def)
  have a: "0 \<le> driving_time ?L" "0 \<le> on_duty_time ?L" "sleeper_berth_time ?L = 0"
    using nn by (simp_all add: log_fields py_int_def)
  have b: "hours_in_range (time_entries ?L)" by (rule entries_hours_in_range)
  have o: "off_duty_time ?L = 1440 - (driving_time ?L + 120)" by (simp add: log_fields)
  have c: "0 \<le> off_duty_time ?L \<longleftrightarrow> driving_time ?L \<le> 1320" unfolding o by linarith
  have "\<lfloor>fmul driving_hours 60\<rfloor> \<le> 1320 \<longleftrightarrow> fmul driving_hours 60 < 1321"
    by (simp add: floor_le_iff)
  with c have d: "0 \<le> off_duty_time ?L \<longleftrightarrow> fmul driving_hours 60 < 1321" by (simp only: t)
  have e: "driving_hours \<le> 22 \<longrightarrow> 0 \<le> off_duty_time ?L"
  proof
    assume "driving_hours \<le> 22"
    then have "driving_hours * 60 \<le> 1320" by simp
    with assms(3) have "rd (driving_hours * 60) \<le> rd 1320" by (intro rd_mono_nonneg) simp_all
    then have "fmul driving_hours 60 < 1321" by (simp add: fmul_def rd_numeral)
    with d show "0 \<le> off_duty_time ?L" by simp
  qed
  have f: "L = ?L" if "generate_log_for_trip start_time distance_miles driving_hours = Inr L" for L
    using that by (rule generate_log_cases)
  have g: "\<forall>ls. generate_multi_day_logs start_time total_distance total_driving_hours
                  pickup_location dropoff_location = Inr ls \<longrightarrow>
               list_all daily_log_ok ls"
    using multi_day_logs_ok [OF assms(1,2)] by blast
  from a b c d e f g show ?thesis by blast
qed

text \<open>
  Ten driving hours from hour 8, and the three logs of 25 driving hours.
\<close>

theorem log_fields_in_range_witness:
  "0 \<le> dt_hour start_0800 \<and> dt_hour start_0800 \<le> 23 \<and> (0::real) \<le> 10 \<and>
   generate_log_for_trip start_0800 500 10 = Inr (log_for_trip start_0800 500 10) \<and>
   0 \<le> driving_time (log_for_trip start_0800 500 10) \<and>
   0 \<le> off_duty_time (log_for_trip start_0800 500 10) \<and>
   hours_in_range (time_entries (log_for_trip start_0800 500 10)) \<and>
   generate_multi_day_logs start_0800 1500 25 ''Austin'' ''Denver'' =
     Inr [nth_daily_log start_0800 1500 25 0, nth_daily_log start_0800 1500 25 1,
          nth_daily_log start_0800 1500 25 2] \<and>
   list_all daily_log_ok
     [nth_daily_log start_0800 1500 25 0, nth_daily_log start_0800 1500 25 1,
      nth_daily_log start_0800 1500 25 2]"
proof -
  have h: "0 \<le> dt_hour start_0800" "dt_hour start_0800 \<le> 23" "(0::real) \<le> 10"
    by (simp_all add: start_0800_def)
  have g: "generate_log_for_trip start_0800 500 10 = Inr (log_for_trip start_0800 500 10)"
    by (rule generate_log_returns) simp_all
  have q: "dt_day start_0800 + \<lceil>(25::real) / 11\<rceil> \<le> max_ordinal"
    by (simp add: start_0800_def max_ordinal_def)
  have "generate_multi_day_logs start_0800 1500 25 ''Austin'' ''Denver'' =
      Inr (map (nth_daily_log start_0800 1500 25) [0..<nat \<lceil>(25::real) / 11\<rceil>])"
    using is_double_25 _ valid_start_0800 q by (rule multi_day_closed) simp
  then have m: "generate_multi_day_logs start_0800 1500 25 ''Austin'' ''Denver'' =
     Inr [nth_daily_log start_0800 1500 25 0, nth_daily_log start_0800 1500 25 1,
          nth_daily_log start_0800 1500 25 2]"
    by (simp only: days_25) simp
  have le: "(10::real) \<le> 22" by simp
  from log_fields_in_range [OF h, of 500 1500 25 "''Austin''" "''Denver''"] g m le
  have "0 \<le> driving_time (log_for_trip start_0800 500 10)"
    "0 \<le> off_duty_time (log_for_trip start_0800 500 10)"
    "hours_in_range (time_entries (log_for_trip start_0800 500 10))"
    "list_all daily_log_ok
     [nth_daily_log start_0800 1500 25 0, nth_daily_log start_0800 1500 25 1,
      nth_daily_log start_0800 1500 25 2]"
    by blast+
  with h g m show ?thesis by blast
qed

end
